theory Spec2Isabelle
  imports Complex_Main "HOL-Library.Multiset"
begin

section \<open>Numbers, constants and helpers\<close>

text \<open>
  The server's simulation core (ServerModels.ts, Server.ts) is embedded function by
  function. JavaScript numbers are read as real numbers: every comparison and every
  assignment of the source is kept, rounding and the special values NaN and Infinity are
  not modelled. Each class becomes a record whose fields carry a short prefix
  (\<open>b_\<close> bullet, \<open>a_\<close> asteroid, \<open>p_\<close> player), since the classes share
  the field names \<open>id\<close>, \<open>x\<close> and \<open>y\<close>. The \<open>dtoObject\<close> snapshots, the
  constant outlines of ships and bullets and the event-handler references are derived or
  constant data and are left out of the records.
\<close>

text \<open>Modelled from the spec: the constants of shared/Constants, which is not among the
  sources; the names say which fractions of a full turn they are.\<close>

definition HALF_PI :: real where
  "HALF_PI = pi / 2"

definition TWO_PI :: real where
  "TWO_PI = 2 * pi"

text \<open>Modelled from the spec: \<open>Utils.map\<close> of shared/Utils, which is not among the
  sources. Its call sites pass a value, the bounds of the range it comes from and the bounds
  of the range it is mapped to; it is the linear re-mapping under which the pieces of a
  broken asteroid are spawned "near its last known position".\<close>

definition Utils_map :: "real \<Rightarrow> real \<Rightarrow> real \<Rightarrow> real \<Rightarrow> real \<Rightarrow> real" where
  "Utils_map v start1 stop1 start2 stop2 =
     start2 + (stop2 - start2) * ((v - start1) / (stop1 - start1))"

text \<open>\<open>Array.prototype.findIndex\<close>: the first index whose element satisfies the
  predicate; \<open>None\<close> stands for the result \<open>-1\<close>.\<close>

fun findIndex :: "('a \<Rightarrow> bool) \<Rightarrow> 'a list \<Rightarrow> nat option" where
  "findIndex P [] = None"
| "findIndex P (x # xs) =
     (if P x then Some 0 else (case findIndex P xs of None \<Rightarrow> None | Some i \<Rightarrow> Some (Suc i)))"

text \<open>\<open>xs.splice(i, 1)\<close>: the array without its element at index \<open>i\<close>.\<close>

definition splice1 :: "nat \<Rightarrow> 'a list \<Rightarrow> 'a list" where
  "splice1 i xs = take i xs @ drop (Suc i) xs"

subsection \<open>The sources of chance\<close>

text \<open>
  \<open>Math.random\<close>, \<open>Date.now\<close>, \<open>uuid\<close> and the random helpers of shared/Utils
  are external. Their results are read from a table (a record of type \<open>chance\<close>)
  at a slot number; the state carries the next free slot, and every call site advances
  it, so no two calls read the same slot.
  \<open>Utils.randInt lo hi\<close> and \<open>Utils.pickRandom\<close> (which yields the index chosen in
  an array of the given length) are part of that table because shared/Utils is not among
  the sources.
\<close>

record chance =
  Math_random :: "nat \<Rightarrow> real"
  Utils_randInt :: "nat \<Rightarrow> real \<Rightarrow> real \<Rightarrow> real"
  Utils_pickRandom :: "nat \<Rightarrow> nat \<Rightarrow> nat"
  uuid :: "nat \<Rightarrow> string"
  Date_now :: "nat \<Rightarrow> real"

subsection \<open>The vector library\<close>

text \<open>
  The velocities are objects of the third-party package \<open>victor\<close>. Its methods mutate
  the vector and return it; here each returns the new vector. \<open>rotateBy\<close> is modelled
  as the package implements it: it turns the vector by its own angle plus the argument.
  \<open>norm\<close> maps the zero vector to \<open>(1, 0)\<close>.
\<close>

record Victor =
  vx :: real
  vy :: real

definition Math_atan2 :: "real \<Rightarrow> real \<Rightarrow> real" where
  "Math_atan2 y x =
     (if 0 < x then arctan (y / x)
      else if x < 0 then (if 0 \<le> y then arctan (y / x) + pi else arctan (y / x) - pi)
      else if 0 < y then pi / 2
      else if y < 0 then - (pi / 2)
      else 0)"

definition Victor_add :: "Victor \<Rightarrow> Victor \<Rightarrow> Victor" where
  "Victor_add v w = \<lparr>vx = vx v + vx w, vy = vy v + vy w\<rparr>"

definition Victor_addScalar :: "Victor \<Rightarrow> real \<Rightarrow> Victor" where
  "Victor_addScalar v s = \<lparr>vx = vx v + s, vy = vy v + s\<rparr>"

definition Victor_multiplyScalar :: "Victor \<Rightarrow> real \<Rightarrow> Victor" where
  "Victor_multiplyScalar v s = \<lparr>vx = vx v * s, vy = vy v * s\<rparr>"

definition Victor_subtractScalarX :: "Victor \<Rightarrow> real \<Rightarrow> Victor" where
  "Victor_subtractScalarX v s = v\<lparr>vx := vx v - s\<rparr>"

definition Victor_subtractScalarY :: "Victor \<Rightarrow> real \<Rightarrow> Victor" where
  "Victor_subtractScalarY v s = v\<lparr>vy := vy v - s\<rparr>"

definition Victor_magnitude :: "Victor \<Rightarrow> real" where
  "Victor_magnitude v = sqrt (vx v * vx v + vy v * vy v)"

definition Victor_angle :: "Victor \<Rightarrow> real" where
  "Victor_angle v = Math_atan2 (vy v) (vx v)"

definition Victor_rotate :: "Victor \<Rightarrow> real \<Rightarrow> Victor" where
  "Victor_rotate v angle =
     \<lparr>vx = vx v * cos angle - vy v * sin angle, vy = vx v * sin angle + vy v * cos angle\<rparr>"

definition Victor_rotateBy :: "Victor \<Rightarrow> real \<Rightarrow> Victor" where
  "Victor_rotateBy v rotation = Victor_rotate v (Victor_angle v + rotation)"

definition Victor_norm :: "Victor \<Rightarrow> Victor" where
  "Victor_norm v =
     (let l = Victor_magnitude v
      in if l = 0 then \<lparr>vx = 1, vy = 0\<rparr> else \<lparr>vx = vx v / l, vy = vy v / l\<rparr>)"

section \<open>Projectiles and their pool\<close>

record RGBColor =
  rgb_r :: real
  rgb_g :: real
  rgb_b :: real

text \<open>
  A \<open>ServerBullet\<close> object. \<open>b_ref\<close> is the identity of the object: the number of
  the \<open>new ServerBullet()\<close> that made it. \<open>b_id\<close> is its \<open>uuid\<close> string.
\<close>

record ServerBullet =
  b_ref :: nat
  b_id :: string
  b_x :: real
  b_y :: real
  b_heading :: real
  b_firerId :: "string option"
  b_velocity :: Victor
  b_color :: RGBColor
  b_needsToBeRecycled :: bool

definition ServerBullet_speed :: real where
  "ServerBullet_speed = 10"

definition ServerBullet_size :: real where
  "ServerBullet_size = 5"

definition new_ServerBullet :: "nat \<Rightarrow> string \<Rightarrow> ServerBullet" where
  "new_ServerBullet ref uid =
     \<lparr>b_ref = ref, b_id = uid, b_x = 0, b_y = 0, b_heading = 0, b_firerId = None,
      b_velocity = \<lparr>vx = 0, vy = 0\<rparr>,
      b_color = \<lparr>rgb_r = 255, rgb_g = 255, rgb_b = 255\<rparr>,
      b_needsToBeRecycled = False\<rparr>"

definition ServerBullet_setInitValues ::
  "string \<Rightarrow> real \<Rightarrow> real \<Rightarrow> real \<Rightarrow> RGBColor \<Rightarrow> ServerBullet \<Rightarrow> ServerBullet" where
  "ServerBullet_setInitValues firerId x y heading color b =
     b\<lparr>b_firerId := Some firerId, b_x := x, b_y := y, b_heading := heading,
       b_velocity :=
         Victor_multiplyScalar
           (Victor_norm (Victor_rotateBy (Victor_addScalar (b_velocity b) 1) (heading + HALF_PI)))
           ServerBullet_speed,
       b_color := color\<rparr>"

definition ServerBullet_update :: "real \<Rightarrow> real \<Rightarrow> ServerBullet \<Rightarrow> ServerBullet" where
  "ServerBullet_update width height b =
     (let x = b_x b + vx (b_velocity b);
          y = b_y b + vy (b_velocity b)
      in b\<lparr>b_x := x, b_y := y,
           b_needsToBeRecycled :=
             (if \<not> b_needsToBeRecycled b then x > width \<or> x < 0 \<or> y > height \<or> y < 0
              else b_needsToBeRecycled b)\<rparr>)"

definition ServerBullet_prepareRecycle :: "ServerBullet \<Rightarrow> ServerBullet" where
  "ServerBullet_prepareRecycle b =
     b\<lparr>b_x := - 1000, b_y := - 1000, b_heading := 0,
       b_velocity := Victor_multiplyScalar (b_velocity b) 0,
       b_firerId := None, b_needsToBeRecycled := False\<rparr>"

text \<open>
  The pool. \<open>allocated\<close> counts the \<open>ServerBullet\<close> objects the pool has
  constructed so far: it is the next object identity, and the set of projectiles handed
  out is \<open>{0..<allocated}\<close>.
\<close>

record BulletHouse =
  recycledBullets :: "ServerBullet list"
  bullets :: "ServerBullet list"
  allocated :: nat

definition new_BulletHouse :: BulletHouse where
  "new_BulletHouse = \<lparr>recycledBullets = [], bullets = [], allocated = 0\<rparr>"

text \<open>\<open>recycledBullets.pop()\<close> takes the last element; an empty array yields
  \<open>undefined\<close> and a new object is constructed, whose \<open>uuid\<close> is \<open>uid\<close>.\<close>

definition BulletHouse_createOrGetBullet :: "string \<Rightarrow> BulletHouse \<Rightarrow> ServerBullet \<times> BulletHouse" where
  "BulletHouse_createOrGetBullet uid bh =
     (if recycledBullets bh = []
      then (new_ServerBullet (allocated bh) uid, bh\<lparr>allocated := Suc (allocated bh)\<rparr>)
      else (last (recycledBullets bh), bh\<lparr>recycledBullets := butlast (recycledBullets bh)\<rparr>))"

definition BulletHouse_fireBullet ::
  "string \<Rightarrow> string \<Rightarrow> real \<Rightarrow> real \<Rightarrow> real \<Rightarrow> RGBColor \<Rightarrow> BulletHouse \<Rightarrow> BulletHouse" where
  "BulletHouse_fireBullet uid firerId x y heading color bh =
     (let (bullet, bh') = BulletHouse_createOrGetBullet uid bh
      in bh'\<lparr>bullets := bullets bh' @ [ServerBullet_setInitValues firerId x y heading color bullet]\<rparr>)"

text \<open>The loop \<open>let i = bullets.length; while (i--) { ... }\<close> of \<open>update\<close>: the
  first argument after the bounds is the value of \<open>i\<close> before the test.\<close>

fun BulletHouse_update_loop :: "real \<Rightarrow> real \<Rightarrow> nat \<Rightarrow> BulletHouse \<Rightarrow> BulletHouse" where
  "BulletHouse_update_loop width height 0 bh = bh"
| "BulletHouse_update_loop width height (Suc i) bh =
     (let bullet = ServerBullet_update width height (bullets bh ! i)
      in if b_needsToBeRecycled bullet
         then BulletHouse_update_loop width height i
                (bh\<lparr>recycledBullets := recycledBullets bh @ [ServerBullet_prepareRecycle bullet],
                    bullets := splice1 i (bullets bh)\<rparr>)
         else BulletHouse_update_loop width height i (bh\<lparr>bullets := (bullets bh)[i := bullet]\<rparr>))"

definition BulletHouse_update :: "real \<Rightarrow> real \<Rightarrow> BulletHouse \<Rightarrow> BulletHouse" where
  "BulletHouse_update width height bh =
     BulletHouse_update_loop width height (length (bullets bh)) bh"

definition BulletHouse_recycleBulletById :: "string \<Rightarrow> BulletHouse \<Rightarrow> BulletHouse" where
  "BulletHouse_recycleBulletById ident bh =
     (case findIndex (\<lambda>bullet. b_id bullet = ident) (bullets bh) of
        None \<Rightarrow> bh
      | Some index \<Rightarrow>
          bh\<lparr>recycledBullets :=
               recycledBullets bh @ [ServerBullet_prepareRecycle (bullets bh ! index)],
             bullets := splice1 index (bullets bh)\<rparr>)"

fun BulletHouse_recycleByFirer_loop :: "string \<Rightarrow> nat \<Rightarrow> BulletHouse \<Rightarrow> BulletHouse" where
  "BulletHouse_recycleByFirer_loop firerId 0 bh = bh"
| "BulletHouse_recycleByFirer_loop firerId (Suc i) bh =
     (let bullet = bullets bh ! i
      in if b_firerId bullet = Some firerId
         then BulletHouse_recycleByFirer_loop firerId i
                (bh\<lparr>recycledBullets := recycledBullets bh @ [ServerBullet_prepareRecycle bullet],
                    bullets := splice1 i (bullets bh)\<rparr>)
         else BulletHouse_recycleByFirer_loop firerId i bh)"

definition BulletHouse_recycleBulletsByFirerId :: "string \<Rightarrow> BulletHouse \<Rightarrow> BulletHouse" where
  "BulletHouse_recycleBulletsByFirerId firerId bh =
     BulletHouse_recycleByFirer_loop firerId (length (bullets bh)) bh"

section \<open>Asteroids\<close>

record ServerAsteroid =
  a_id :: string
  a_maxCollidingDistance :: real
  a_minCollidingDistance :: real
  a_vertices :: "(real \<times> real) list"
  a_x :: real
  a_y :: real
  a_rotation :: real
  a_rotationSpeed :: real
  a_velocity :: Victor
  a_speed :: real
  a_needNewTarget :: bool
  a_isBig :: bool

definition ServerAsteroid_bigAsteroidVertexCount :: nat where
  "ServerAsteroid_bigAsteroidVertexCount = 10"

definition ServerAsteroid_smallAsteroidVertexCount :: nat where
  "ServerAsteroid_smallAsteroidVertexCount = 5"

definition ServerAsteroid_outsideThreshold :: real where
  "ServerAsteroid_outsideThreshold = 50"

text \<open>\<open>setRandomSpawnPoint\<close>: the spawn point, from the slots \<open>k\<close>, \<open>k + 1\<close>
  and \<open>k + 2\<close>.\<close>

definition ServerAsteroid_setRandomSpawnPoint :: "chance \<Rightarrow> nat \<Rightarrow> real \<Rightarrow> real \<Rightarrow> real \<times> real" where
  "ServerAsteroid_setRandomSpawnPoint ch k width height =
     (let rand = Math_random ch k
      in if rand < 0.25 then (Utils_randInt ch (k + 1) (- 200) (- 100), Utils_randInt ch (k + 2) 0 height)
         else if rand < 0.5 then (Utils_randInt ch (k + 1) 0 width, Utils_randInt ch (k + 2) (- 200) (- 100))
         else if rand < 0.75
           then (Utils_randInt ch (k + 1) (width + 100) (width + 200), Utils_randInt ch (k + 2) 0 height)
         else (Utils_randInt ch (k + 1) 0 width, Utils_randInt ch (k + 2) (height + 100) (height + 200)))"

text \<open>The outline: one vertex per index below \<open>vertexCount\<close>, each with a radius drawn
  between the two colliding distances (slot \<open>k + i\<close>).\<close>

definition ServerAsteroid_outline :: "chance \<Rightarrow> nat \<Rightarrow> nat \<Rightarrow> real \<Rightarrow> real \<Rightarrow> (real \<times> real) list" where
  "ServerAsteroid_outline ch k vertexCount minD maxD =
     map (\<lambda>i. let angle = Utils_map (real i) 0 (real vertexCount) 0 TWO_PI;
                   r = Utils_randInt ch (k + i) minD maxD
               in (r * cos angle, r * sin angle))
         [0..<vertexCount]"

text \<open>The constructor, reading the slots from \<open>k\<close> on; it returns the asteroid and the
  next free slot. The field initialisers run first (\<open>id = uuid()\<close>, no velocity,
  \<open>needNewTarget = true\<close>), then the body.\<close>

definition new_ServerAsteroid :: "chance \<Rightarrow> nat \<Rightarrow> real \<Rightarrow> real \<Rightarrow> bool \<Rightarrow> ServerAsteroid \<times> nat" where
  "new_ServerAsteroid ch k width height isBig =
     (let (x, y) = ServerAsteroid_setRandomSpawnPoint ch (k + 1) width height;
          rotationSpeed =
            (if isBig then Utils_map (Math_random ch (k + 4)) 0 1 0.01 0.03
             else Utils_map (Math_random ch (k + 4)) 0 1 0.05 0.07);
          speed =
            (if isBig then Utils_map (Math_random ch (k + 5)) 0 1 1 2
             else Utils_map (Math_random ch (k + 5)) 0 1 1.5 2.5);
          maxD = (if isBig then Utils_randInt ch (k + 6) 80 100 else Utils_randInt ch (k + 6) 40 60);
          minD = (if isBig then Utils_randInt ch (k + 7) 40 60 else Utils_randInt ch (k + 7) 10 30);
          vertexCount =
            (if isBig then ServerAsteroid_bigAsteroidVertexCount
             else ServerAsteroid_smallAsteroidVertexCount)
      in (\<lparr>a_id = uuid ch k, a_maxCollidingDistance = maxD, a_minCollidingDistance = minD,
           a_vertices = ServerAsteroid_outline ch (k + 8) vertexCount minD maxD,
           a_x = x, a_y = y, a_rotation = 0, a_rotationSpeed = rotationSpeed,
           a_velocity = \<lparr>vx = 0, vy = 0\<rparr>, a_speed = speed,
           a_needNewTarget = True, a_isBig = isBig\<rparr>,
          k + 8 + vertexCount))"

definition ServerAsteroid_createPieceOf ::
  "chance \<Rightarrow> nat \<Rightarrow> real \<Rightarrow> real \<Rightarrow> ServerAsteroid \<Rightarrow> ServerAsteroid \<times> nat" where
  "ServerAsteroid_createPieceOf ch k width height bigAsteroid =
     (let (asteroid, k') = new_ServerAsteroid ch k width height False;
          velocity = \<lparr>vx = Utils_map (Math_random ch (k' + 2)) 0 1 (- 1) 1,
                      vy = Utils_map (Math_random ch (k' + 3)) 0 1 (- 1) 1\<rparr>
      in (asteroid\<lparr>a_x := a_x bigAsteroid + Utils_map (Math_random ch k') 0 1 (- 20) 20,
                   a_y := a_y bigAsteroid + Utils_map (Math_random ch (k' + 1)) 0 1 (- 20) 20,
                   a_needNewTarget := False,
                   a_velocity := Victor_multiplyScalar (Victor_norm velocity) (a_speed asteroid)\<rparr>,
          k' + 4))"

text \<open>\<open>setTarget\<close> draws a new speed from slot \<open>k\<close>.\<close>

definition ServerAsteroid_setTarget :: "chance \<Rightarrow> nat \<Rightarrow> real \<Rightarrow> real \<Rightarrow> ServerAsteroid \<Rightarrow> ServerAsteroid" where
  "ServerAsteroid_setTarget ch k x y a =
     (let speed =
            (if a_isBig a then Utils_map (Math_random ch k) 0 1 1 2
             else Utils_map (Math_random ch k) 0 1 1.5 2.5);
          v = Victor_multiplyScalar
                (Victor_norm
                  (Victor_subtractScalarY (Victor_subtractScalarX \<lparr>vx = x, vy = y\<rparr> (a_x a)) (a_y a)))
                speed
      in a\<lparr>a_speed := speed, a_velocity := \<lparr>vx = vx v, vy = vy v\<rparr>, a_needNewTarget := False\<rparr>)"

definition ServerAsteroid_update :: "real \<Rightarrow> real \<Rightarrow> ServerAsteroid \<Rightarrow> ServerAsteroid" where
  "ServerAsteroid_update width height a =
     (let x = a_x a + vx (a_velocity a);
          y = a_y a + vy (a_velocity a);
          size = a_maxCollidingDistance a;
          outsideThreshold = ServerAsteroid_outsideThreshold
      in a\<lparr>a_rotation := a_rotation a + a_rotationSpeed a, a_x := x, a_y := y,
           a_needNewTarget :=
             (if \<not> a_needNewTarget a
              then x - size > width + outsideThreshold \<or> x + size < - outsideThreshold
                   \<or> y - size > height + outsideThreshold \<or> y + size < - outsideThreshold
              else a_needNewTarget a)\<rparr>)"

section \<open>Ships\<close>

record PlayerInputDTO =
  in_up :: bool
  in_left :: bool
  in_right :: bool
  in_fire :: bool

text \<open>A \<open>ServerPlayer\<close> object. The field \<open>then\<close> of the source is \<open>p_then\<close>. The
  counters are JavaScript numbers that only take whole values and are integers here.\<close>

record ServerPlayer =
  p_id :: string
  p_name :: string
  p_origColor :: RGBColor
  p_currentColor :: RGBColor
  p_x :: real
  p_y :: real
  p_heading :: real
  p_showTail :: bool
  p_velocity :: Victor
  p_acceleration :: Victor
  p_boostingForce :: Victor
  p_rotation :: real
  p_isBoosting :: bool
  p_isFiring :: bool
  p_now :: real
  p_then :: real
  p_fireDelta :: real
  p_asteroidPoints :: int
  p_killingPoints :: int
  p_invincibleCountdown :: int

definition ServerPlayer_maxSpeed :: real where
  "ServerPlayer_maxSpeed = 8"

definition ServerPlayer_size :: real where
  "ServerPlayer_size = 15"

definition ServerPlayer_fireInterval :: real where
  "ServerPlayer_fireInterval = 1000 / 4"

text \<open>The constructor; \<open>then = Date.now()\<close> reads slot \<open>k\<close>.\<close>

definition new_ServerPlayer ::
  "chance \<Rightarrow> nat \<Rightarrow> string \<Rightarrow> string \<Rightarrow> RGBColor \<Rightarrow> real \<Rightarrow> real \<Rightarrow> ServerPlayer" where
  "new_ServerPlayer ch k ident name color x y =
     \<lparr>p_id = ident, p_name = name,
      p_origColor = \<lparr>rgb_r = rgb_r color, rgb_g = rgb_g color, rgb_b = rgb_b color\<rparr>,
      p_currentColor = color, p_x = x, p_y = y, p_heading = HALF_PI, p_showTail = False,
      p_velocity = \<lparr>vx = 0, vy = 0\<rparr>, p_acceleration = \<lparr>vx = 0, vy = 0\<rparr>,
      p_boostingForce = \<lparr>vx = 0, vy = 0\<rparr>, p_rotation = 0, p_isBoosting = False,
      p_isFiring = False, p_now = 0, p_then = Date_now ch k, p_fireDelta = 0,
      p_asteroidPoints = 0, p_killingPoints = 0, p_invincibleCountdown = 255\<rparr>"

definition ServerPlayer_isInvincible :: "ServerPlayer \<Rightarrow> bool" where
  "ServerPlayer_isInvincible p = (p_invincibleCountdown p > 0)"

definition ServerPlayer_applyInput :: "PlayerInputDTO \<Rightarrow> ServerPlayer \<Rightarrow> ServerPlayer" where
  "ServerPlayer_applyInput input p =
     p\<lparr>p_isBoosting := in_up input,
       p_rotation :=
         (if in_left input then - 0.08
          else if in_right input then 0.08
          else if \<not> in_left input \<and> \<not> in_right input then 0
          else p_rotation p),
       p_isFiring := in_fire input\<rparr>"

definition ServerPlayer_updateBoostingForce :: "bool \<Rightarrow> ServerPlayer \<Rightarrow> ServerPlayer" where
  "ServerPlayer_updateBoostingForce isBoosting p =
     (if isBoosting
      then p\<lparr>p_boostingForce :=
               Victor_multiplyScalar
                 (Victor_norm
                   (Victor_rotateBy (Victor_addScalar (p_boostingForce p) 1) (p_heading p + HALF_PI)))
                 0.1\<rparr>
      else p\<lparr>p_boostingForce := Victor_multiplyScalar (p_boostingForce p) 0\<rparr>)"

definition ServerPlayer_checkEdges :: "real \<Rightarrow> real \<Rightarrow> ServerPlayer \<Rightarrow> ServerPlayer" where
  "ServerPlayer_checkEdges width height p =
     (let r = ServerPlayer_size;
          p1 = (if p_x p > width + r then p\<lparr>p_x := - r\<rparr>
                else if p_x p < - r then p\<lparr>p_x := width + r\<rparr>
                else p)
      in if p_y p1 > height + r then p1\<lparr>p_y := - r\<rparr>
         else if p_y p1 < - r then p1\<lparr>p_y := height + r\<rparr>
         else p1)"

text \<open>The physics part of \<open>update\<close>: heading, thrust, velocity with its cap and drag,
  position, the edge check and the reset of the acceleration.\<close>

definition ServerPlayer_move :: "real \<Rightarrow> real \<Rightarrow> ServerPlayer \<Rightarrow> ServerPlayer" where
  "ServerPlayer_move width height p =
     (let p1 = p\<lparr>p_heading := p_heading p + p_rotation p\<rparr>;
          p2 = ServerPlayer_updateBoostingForce (p_isBoosting p1) p1;
          p3 = p2\<lparr>p_acceleration := Victor_add (p_acceleration p2) (p_boostingForce p2)\<rparr>;
          v = Victor_add (p_velocity p3) (p_acceleration p3);
          v1 = (if Victor_magnitude v > ServerPlayer_maxSpeed
                then Victor_multiplyScalar (Victor_norm v) ServerPlayer_maxSpeed else v);
          v2 = Victor_multiplyScalar v1 0.99;
          p4 = p3\<lparr>p_velocity := v2, p_x := p_x p3 + vx v2, p_y := p_y p3 + vy v2\<rparr>;
          p5 = ServerPlayer_checkEdges width height p4
      in p5\<lparr>p_acceleration := Victor_multiplyScalar (p_acceleration p5) 0\<rparr>)"

text \<open>The firing part of \<open>update\<close>: \<open>Date.now()\<close> reads slot \<open>k\<close>, the
  \<open>uuid\<close> of a newly constructed bullet slot \<open>k + 1\<close>.\<close>

definition ServerPlayer_fire ::
  "chance \<Rightarrow> nat \<Rightarrow> ServerPlayer \<times> BulletHouse \<Rightarrow> ServerPlayer \<times> BulletHouse" where
  "ServerPlayer_fire ch k = (\<lambda>(p, bh).
     if p_isFiring p
     then (let now = Date_now ch k;
               p1 = p\<lparr>p_now := now, p_fireDelta := now - p_then p\<rparr>
           in if p_fireDelta p1 > ServerPlayer_fireInterval
              then (p1\<lparr>p_then := p_now p1\<rparr>,
                    BulletHouse_fireBullet (uuid ch (k + 1)) (p_id p1) (p_x p1) (p_y p1)
                      (p_heading p1) (p_origColor p1) bh)
              else (p1, bh))
     else (p, bh))"

text \<open>The colour part of \<open>update\<close>: a blink drawn from the slots \<open>k\<close> to
  \<open>k + 2\<close> while the countdown is positive.\<close>

definition ServerPlayer_blink :: "chance \<Rightarrow> nat \<Rightarrow> ServerPlayer \<Rightarrow> ServerPlayer" where
  "ServerPlayer_blink ch k p =
     (let origColor = p_origColor p
      in if p_invincibleCountdown p > 0
         then (let countdown = real_of_int (p_invincibleCountdown p)
               in p\<lparr>p_currentColor :=
                     \<lparr>rgb_r = Utils_randInt ch k
                                (Utils_map countdown 0 255 (rgb_r origColor) 0) (rgb_r origColor),
                      rgb_g = Utils_randInt ch (k + 1)
                                (Utils_map countdown 0 255 (rgb_g origColor) 0) (rgb_g origColor),
                      rgb_b = Utils_randInt ch (k + 2)
                                (Utils_map countdown 0 255 (rgb_b origColor) 0) (rgb_b origColor)\<rparr>\<rparr>)
         else p\<lparr>p_currentColor :=
                 \<lparr>rgb_r = rgb_r origColor, rgb_g = rgb_g origColor, rgb_b = rgb_b origColor\<rparr>\<rparr>)"

text \<open>\<open>ServerPlayer.update\<close>, on the ship and the pool it fires into; it reads the
  slots \<open>k\<close> to \<open>k + 4\<close>.\<close>

definition ServerPlayer_update ::
  "chance \<Rightarrow> nat \<Rightarrow> real \<Rightarrow> real \<Rightarrow> ServerPlayer \<times> BulletHouse \<Rightarrow> ServerPlayer \<times> BulletHouse" where
  "ServerPlayer_update ch k width height = (\<lambda>(p, bh).
     let (p1, bh1) = ServerPlayer_fire ch k (ServerPlayer_move width height p, bh);
         p2 = p1\<lparr>p_showTail := Victor_magnitude (p_velocity p1) > 1\<rparr>;
         p3 = (if p_invincibleCountdown p2 > 0
               then p2\<lparr>p_invincibleCountdown := p_invincibleCountdown p2 - 1\<rparr> else p2)
     in (ServerPlayer_blink ch (k + 2) p3, bh1))"

text \<open>The objects of the collision protocol: \<open>instanceof\<close> is the constructor.\<close>

datatype CollidingObject =
  Player ServerPlayer
| Bullet ServerBullet
| Asteroid ServerAsteroid

definition ServerPlayer_isCollisionTarget :: "ServerPlayer \<Rightarrow> CollidingObject \<Rightarrow> bool" where
  "ServerPlayer_isCollisionTarget this other =
     (case other of
        Bullet b \<Rightarrow> (if b_firerId b \<noteq> Some (p_id this) \<and> \<not> b_needsToBeRecycled b then True else False)
      | Asteroid a \<Rightarrow> True
      | Player q \<Rightarrow> False)"

definition ServerAsteroid_isCollisionTarget :: "ServerAsteroid \<Rightarrow> CollidingObject \<Rightarrow> bool" where
  "ServerAsteroid_isCollisionTarget this other =
     (case other of
        Bullet b \<Rightarrow> (if \<not> b_needsToBeRecycled b then True else False)
      | Asteroid a \<Rightarrow> False
      | Player q \<Rightarrow> False)"

definition ServerBullet_isCollisionTarget :: "ServerBullet \<Rightarrow> CollidingObject \<Rightarrow> bool" where
  "ServerBullet_isCollisionTarget this other = False"

section \<open>The game data\<close>

text \<open>
  The JavaScript \<open>Map\<close> of the players is a list of entries in insertion order with
  the three operations the source uses: \<open>set\<close> replaces the value of a key in place or
  adds an entry at the end, \<open>delete\<close> drops the entry of a key, \<open>get\<close> reads it.
  \<open>Map_modify\<close> stands for a method that mutates the object stored under a key:
  \<open>firer.increaseKillingPoint()\<close> on the object that \<open>get\<close> returned shows in the
  collection while that object is still stored there.
\<close>

fun Map_set :: "'k \<Rightarrow> 'v \<Rightarrow> ('k \<times> 'v) list \<Rightarrow> ('k \<times> 'v) list" where
  "Map_set k v [] = [(k, v)]"
| "Map_set k v (e # es) = (if fst e = k then (k, v) # es else e # Map_set k v es)"

definition Map_delete :: "'k \<Rightarrow> ('k \<times> 'v) list \<Rightarrow> ('k \<times> 'v) list" where
  "Map_delete k m = filter (\<lambda>e. fst e \<noteq> k) m"

definition Map_get :: "'k \<Rightarrow> ('k \<times> 'v) list \<Rightarrow> 'v option" where
  "Map_get k m = map_of m k"

definition Map_modify :: "'k \<Rightarrow> ('v \<Rightarrow> 'v) \<Rightarrow> ('k \<times> 'v) list \<Rightarrow> ('k \<times> 'v) list" where
  "Map_modify k f m = map (\<lambda>e. if fst e = k then (fst e, f (snd e)) else e) m"

record ServerGameData =
  players :: "(string \<times> ServerPlayer) list"
  bulletHouse :: BulletHouse
  asteroids :: "ServerAsteroid list"
  curBigAsteroidsCount :: int

definition ServerGameData_width :: real where
  "ServerGameData_width = 4000"

definition ServerGameData_height :: real where
  "ServerGameData_height = 4000"

definition ServerGameData_minBigAsteroidCount :: int where
  "ServerGameData_minBigAsteroidCount = 7"

definition ServerGameData_bigAsteroidCountMultiplesOfPlayer :: int where
  "ServerGameData_bigAsteroidCountMultiplesOfPlayer = 3"

text \<open>The loop \<open>for (let i = 0; i < n; i++) { asteroids.push(new ServerAsteroid(width,
  height, true, ...)); curBigAsteroidsCount++ }\<close>, which the constructor and the top-up of
  \<open>update\<close> both run. The game data travel with the next free slot.\<close>

fun ServerGameData_pushBigAsteroids :: "chance \<Rightarrow> nat \<Rightarrow> ServerGameData \<times> nat \<Rightarrow> ServerGameData \<times> nat" where
  "ServerGameData_pushBigAsteroids ch 0 (gd, k) = (gd, k)"
| "ServerGameData_pushBigAsteroids ch (Suc n) (gd, k) =
     (let (asteroid, k') = new_ServerAsteroid ch k ServerGameData_width ServerGameData_height True
      in ServerGameData_pushBigAsteroids ch n
           (gd\<lparr>asteroids := asteroids gd @ [asteroid],
               curBigAsteroidsCount := curBigAsteroidsCount gd + 1\<rparr>, k'))"

definition new_ServerGameData :: "chance \<Rightarrow> nat \<Rightarrow> ServerGameData \<times> nat" where
  "new_ServerGameData ch k =
     ServerGameData_pushBigAsteroids ch (nat ServerGameData_minBigAsteroidCount)
       (\<lparr>players = [], bulletHouse = new_BulletHouse, asteroids = [], curBigAsteroidsCount = 0\<rparr>, k)"

definition ServerGameData_addPlayer ::
  "chance \<Rightarrow> nat \<Rightarrow> string \<Rightarrow> string \<Rightarrow> RGBColor \<Rightarrow> ServerGameData \<Rightarrow> ServerPlayer \<times> ServerGameData" where
  "ServerGameData_addPlayer ch k ident name color gd =
     (let newPlayer = new_ServerPlayer ch k ident name color
                        (ServerGameData_width / 2) (ServerGameData_height / 2)
      in (newPlayer, gd\<lparr>players := Map_set ident newPlayer (players gd)\<rparr>))"

definition ServerGameData_removePlayerById ::
  "string \<Rightarrow> ServerGameData \<Rightarrow> ServerPlayer option \<times> ServerGameData" where
  "ServerGameData_removePlayerById ident gd =
     (case Map_get ident (players gd) of
        Some player \<Rightarrow> (Some player, gd\<lparr>players := Map_delete ident (players gd)\<rparr>)
      | None \<Rightarrow> (None, gd))"

definition ServerGameData_removeAsteroidById ::
  "string \<Rightarrow> ServerGameData \<Rightarrow> ServerAsteroid option \<times> ServerGameData" where
  "ServerGameData_removeAsteroidById ident gd =
     (case findIndex (\<lambda>v. ident = a_id v) (asteroids gd) of
        Some index \<Rightarrow> (Some (asteroids gd ! index), gd\<lparr>asteroids := splice1 index (asteroids gd)\<rparr>)
      | None \<Rightarrow> (None, gd))"

definition ServerGameData_breakAsteroid ::
  "chance \<Rightarrow> ServerAsteroid \<Rightarrow> ServerGameData \<times> nat \<Rightarrow> ServerGameData \<times> nat" where
  "ServerGameData_breakAsteroid ch asteroid = (\<lambda>(gd, k).
     let (removed, gd1) = ServerGameData_removeAsteroidById (a_id asteroid) gd
     in case removed of
          None \<Rightarrow> (gd1, k)
        | Some r \<Rightarrow>
            if a_isBig r
            then (let width = ServerGameData_width;
                      height = ServerGameData_height;
                      (piece1, k1) = ServerAsteroid_createPieceOf ch k width height r;
                      (piece2, k2) = ServerAsteroid_createPieceOf ch k1 width height r;
                      (piece3, k3) = ServerAsteroid_createPieceOf ch k2 width height r
                  in (gd1\<lparr>asteroids := asteroids gd1 @ [piece1, piece2, piece3],
                          curBigAsteroidsCount := curBigAsteroidsCount gd1 - 1\<rparr>, k3))
            else (gd1, k))"

definition ServerGameData_getPlayerWithId :: "string \<Rightarrow> ServerGameData \<Rightarrow> ServerPlayer option" where
  "ServerGameData_getPlayerWithId ident gd = Map_get ident (players gd)"

definition ServerGameData_recycleBulletById :: "string \<Rightarrow> ServerGameData \<Rightarrow> ServerGameData" where
  "ServerGameData_recycleBulletById ident gd =
     gd\<lparr>bulletHouse := BulletHouse_recycleBulletById ident (bulletHouse gd)\<rparr>"

definition ServerGameData_recycleBulletsByFirerId :: "string \<Rightarrow> ServerGameData \<Rightarrow> ServerGameData" where
  "ServerGameData_recycleBulletsByFirerId firerId gd =
     gd\<lparr>bulletHouse := BulletHouse_recycleBulletsByFirerId firerId (bulletHouse gd)\<rparr>"

definition ServerPlayer_increaseAsteroidPoint :: "ServerPlayer \<Rightarrow> ServerPlayer" where
  "ServerPlayer_increaseAsteroidPoint p = p\<lparr>p_asteroidPoints := p_asteroidPoints p + 1\<rparr>"

definition ServerPlayer_increaseKillingPoint :: "ServerPlayer \<Rightarrow> ServerPlayer" where
  "ServerPlayer_increaseKillingPoint p = p\<lparr>p_killingPoints := p_killingPoints p + 1\<rparr>"

section \<open>The server: sessions and game events\<close>

text \<open>
  A socket of the transport layer: its id and \<open>me\<close>, the ship of the session, held as
  the id of that ship (a ship is created with the id of its socket). The messages that
  \<open>ServerSocketEventsHelper\<close> sends are appended to \<open>outbox\<close>, each with the id of the
  socket it goes to and the ids of the ships whose states it carries. \<open>slot\<close> is the next
  free slot of the sources of chance.
\<close>

record DomainSocket =
  s_id :: string
  s_me :: "string option"

datatype message =
  LoggedInEvent string string
| PlayerLeftEvent string string
| KilledByAsteroidEvent string string
| KilledByPlayerEvent string string string
| GameDataEvent string

record Server =
  gameData :: ServerGameData
  connectedSockets :: "DomainSocket list"
  outbox :: "message list"
  slot :: nat

definition new_Server :: "chance \<Rightarrow> Server" where
  "new_Server ch =
     (let (gd, k) = new_ServerGameData ch 0
      in \<lparr>gameData = gd, connectedSockets = [], outbox = [], slot = k\<rparr>)"

text \<open>The lines both kill handlers run for the session of a killed ship:
  \<open>connectedSockets.find\<close>, then \<open>me = null\<close> and the notification.\<close>

definition Server_notifyKilled :: "(string \<Rightarrow> message) \<Rightarrow> ServerPlayer \<Rightarrow> Server \<Rightarrow> Server" where
  "Server_notifyKilled event killedPlayer st =
     (case findIndex (\<lambda>socket. s_id socket = p_id killedPlayer) (connectedSockets st) of
        None \<Rightarrow> st
      | Some i \<Rightarrow>
          st\<lparr>connectedSockets :=
               (connectedSockets st)[i := (connectedSockets st ! i)\<lparr>s_me := None\<rparr>],
             outbox := outbox st @ [event (s_id (connectedSockets st ! i))]\<rparr>)"

definition Server_asteroidKilledPlayer :: "chance \<Rightarrow> ServerAsteroid \<Rightarrow> ServerPlayer \<Rightarrow> Server \<Rightarrow> Server" where
  "Server_asteroidKilledPlayer ch asteroid player st =
     (let (killed, gd1) = ServerGameData_removePlayerById (p_id player) (gameData st);
          st1 = (case killed of
                   None \<Rightarrow> st
                 | Some killedPlayer \<Rightarrow>
                     Server_notifyKilled (\<lambda>sid. KilledByAsteroidEvent sid (p_id killedPlayer)) killedPlayer
                       (st\<lparr>gameData := ServerGameData_recycleBulletsByFirerId (p_id killedPlayer) gd1\<rparr>));
          (gd2, k) = ServerGameData_breakAsteroid ch asteroid (gameData st1, slot st1)
      in st1\<lparr>gameData := gd2, slot := k\<rparr>)"

text \<open>\<open>if (bullet.firerId)\<close> holds for a string that is neither \<open>null\<close> nor empty.\<close>

definition truthy :: "string option \<Rightarrow> bool" where
  "truthy v = (case v of None \<Rightarrow> False | Some str \<Rightarrow> str \<noteq> [])"

definition Server_bulletKilledAsteroid :: "chance \<Rightarrow> ServerBullet \<Rightarrow> ServerAsteroid \<Rightarrow> Server \<Rightarrow> Server" where
  "Server_bulletKilledAsteroid ch bullet asteroid st =
     (let st1 =
        (if truthy (b_firerId bullet)
         then (case ServerGameData_getPlayerWithId (the (b_firerId bullet)) (gameData st) of
                 None \<Rightarrow> st
               | Some firer \<Rightarrow>
                   (let (gd1, k) = ServerGameData_breakAsteroid ch asteroid (gameData st, slot st)
                    in st\<lparr>gameData :=
                            gd1\<lparr>players := Map_modify (the (b_firerId bullet)) ServerPlayer_increaseAsteroidPoint
                                              (players gd1)\<rparr>,
                          slot := k\<rparr>))
         else st)
      in st1\<lparr>gameData := ServerGameData_recycleBulletById (b_id bullet) (gameData st1)\<rparr>)"

definition Server_bulletKilledPlayer :: "chance \<Rightarrow> ServerBullet \<Rightarrow> ServerPlayer \<Rightarrow> Server \<Rightarrow> Server" where
  "Server_bulletKilledPlayer ch bullet player st =
     (let st1 =
        (if truthy (b_firerId bullet)
         then (case ServerGameData_getPlayerWithId (the (b_firerId bullet)) (gameData st) of
                 None \<Rightarrow> st
               | Some firer \<Rightarrow>
                   (let (killed, gd1) = ServerGameData_removePlayerById (p_id player) (gameData st)
                    in case killed of
                         None \<Rightarrow> st
                       | Some killedPlayer \<Rightarrow>
                           (let st2 = Server_notifyKilled
                                        (\<lambda>sid. KilledByPlayerEvent sid (p_id firer) (p_id killedPlayer))
                                        killedPlayer
                                        (st\<lparr>gameData :=
                                              ServerGameData_recycleBulletsByFirerId (p_id killedPlayer) gd1\<rparr>)
                            in st2\<lparr>gameData :=
                                     (gameData st2)
                                       \<lparr>players := Map_modify (the (b_firerId bullet)) ServerPlayer_increaseKillingPoint
                                                     (players (gameData st2))\<rparr>\<rparr>)))
         else st)
      in st1\<lparr>gameData := ServerGameData_recycleBulletById (b_id bullet) (gameData st1)\<rparr>)"

subsection \<open>The collision protocol\<close>

definition ServerPlayer_processCollidedWith :: "chance \<Rightarrow> ServerPlayer \<Rightarrow> CollidingObject \<Rightarrow> Server \<Rightarrow> Server" where
  "ServerPlayer_processCollidedWith ch this other st =
     (case other of
        Bullet b \<Rightarrow> Server_bulletKilledPlayer ch b this st
      | Asteroid a \<Rightarrow> Server_asteroidKilledPlayer ch a this st
      | Player q \<Rightarrow> st)"

definition ServerAsteroid_processCollidedWith :: "chance \<Rightarrow> ServerAsteroid \<Rightarrow> CollidingObject \<Rightarrow> Server \<Rightarrow> Server" where
  "ServerAsteroid_processCollidedWith ch this other st =
     (case other of
        Bullet b \<Rightarrow> Server_bulletKilledAsteroid ch b this st
      | Asteroid a \<Rightarrow> st
      | Player q \<Rightarrow> st)"

definition ServerBullet_processCollidedWith :: "chance \<Rightarrow> ServerBullet \<Rightarrow> CollidingObject \<Rightarrow> Server \<Rightarrow> Server" where
  "ServerBullet_processCollidedWith ch this other st = st"

text \<open>The call \<open>obj.processCollidedWith(other)\<close> on an object of the interface.\<close>

definition CollidingObject_processCollidedWith ::
  "chance \<Rightarrow> CollidingObject \<Rightarrow> CollidingObject \<Rightarrow> Server \<Rightarrow> Server" where
  "CollidingObject_processCollidedWith ch obj other st =
     (case obj of
        Player p \<Rightarrow> ServerPlayer_processCollidedWith ch p other st
      | Bullet b \<Rightarrow> ServerBullet_processCollidedWith ch b other st
      | Asteroid a \<Rightarrow> ServerAsteroid_processCollidedWith ch a other st)"

text \<open>Modelled from the spec: \<open>Utils.checkCollidedWith\<close> of shared/Utils, which is not
  among the sources. By the spec it resolves, through \<open>processCollidedWith\<close> of the
  checking object, the others that are collision candidates and pass the distance test.
  Which others those are, and in which order, is the parameter \<open>hits\<close>: a function of the
  state, the checking object and the arrays it is given. Theorems about a tick hold for
  every \<open>hits\<close>.\<close>

type_synonym detector = "Server \<Rightarrow> CollidingObject \<Rightarrow> CollidingObject list list \<Rightarrow> CollidingObject list"

definition Utils_checkCollidedWith ::
  "detector \<Rightarrow> chance \<Rightarrow> CollidingObject \<Rightarrow> CollidingObject list list \<Rightarrow> Server \<Rightarrow> Server" where
  "Utils_checkCollidedWith hits ch obj othersArray st =
     fold (CollidingObject_processCollidedWith ch obj) (hits st obj othersArray) st"

definition ServerPlayer_checkCollidedWith ::
  "detector \<Rightarrow> chance \<Rightarrow> ServerPlayer \<Rightarrow> CollidingObject list list \<Rightarrow> Server \<Rightarrow> Server" where
  "ServerPlayer_checkCollidedWith hits ch this othersArray st =
     (if ServerPlayer_isInvincible this then st
      else Utils_checkCollidedWith hits ch (Player this) othersArray st)"

definition ServerAsteroid_checkCollidedWith ::
  "detector \<Rightarrow> chance \<Rightarrow> ServerAsteroid \<Rightarrow> CollidingObject list list \<Rightarrow> Server \<Rightarrow> Server" where
  "ServerAsteroid_checkCollidedWith hits ch this othersArray st =
     Utils_checkCollidedWith hits ch (Asteroid this) othersArray st"

definition ServerBullet_checkCollidedWith ::
  "detector \<Rightarrow> chance \<Rightarrow> ServerBullet \<Rightarrow> CollidingObject list list \<Rightarrow> Server \<Rightarrow> Server" where
  "ServerBullet_checkCollidedWith hits ch this othersArray st = st"

section \<open>One tick\<close>

text \<open>\<open>players.forEach(player => player.update(width, height))\<close>: the entries in
  order, each ship firing into the shared pool; five slots per ship.\<close>

fun ServerGameData_updatePlayers ::
  "chance \<Rightarrow> (string \<times> ServerPlayer) list \<Rightarrow> BulletHouse \<times> nat
     \<Rightarrow> (string \<times> ServerPlayer) list \<times> BulletHouse \<times> nat" where
  "ServerGameData_updatePlayers ch [] (bh, k) = ([], bh, k)"
| "ServerGameData_updatePlayers ch (e # es) (bh, k) =
     (let (p', bh') = ServerPlayer_update ch k ServerGameData_width ServerGameData_height (snd e, bh);
          (es', bh'', k') = ServerGameData_updatePlayers ch es (bh', k + 5)
      in ((fst e, p') # es', bh'', k'))"

text \<open>The target of a big asteroid that needs one: a ship picked at random (slot \<open>k\<close>)
  or, when \<open>pickRandom\<close> yields none, a random point (slots \<open>k + 1\<close>, \<open>k + 2\<close>);
  \<open>setTarget\<close> reads slot \<open>k + 3\<close>.\<close>

definition ServerGameData_retarget ::
  "chance \<Rightarrow> nat \<Rightarrow> (string \<times> ServerPlayer) list \<Rightarrow> ServerAsteroid \<Rightarrow> ServerAsteroid" where
  "ServerGameData_retarget ch k ps asteroid =
     (let values = map snd ps;
          index = Utils_pickRandom ch k (length values)
      in if index < length values
         then ServerAsteroid_setTarget ch (k + 3) (p_x (values ! index)) (p_y (values ! index)) asteroid
         else ServerAsteroid_setTarget ch (k + 3)
                (Utils_randInt ch (k + 1) 0 ServerGameData_width)
                (Utils_randInt ch (k + 2) 0 ServerGameData_height) asteroid)"

text \<open>The loop \<open>for (let i = 0; i < asteroids.length; i++)\<close> of \<open>update\<close>; a small
  asteroid that needs a target is spliced out and the index stays (\<open>splice(i--, 1)\<close>,
  then \<open>i++\<close>).\<close>

function ServerGameData_updateAsteroids :: "chance \<Rightarrow> nat \<Rightarrow> ServerGameData \<times> nat \<Rightarrow> ServerGameData \<times> nat" where
  "ServerGameData_updateAsteroids ch i (gd, k) =
     (if i < length (asteroids gd)
      then (let asteroid = ServerAsteroid_update ServerGameData_width ServerGameData_height
                             (asteroids gd ! i)
            in if a_needNewTarget asteroid
               then (if a_isBig asteroid
                     then ServerGameData_updateAsteroids ch (i + 1)
                            (gd\<lparr>asteroids :=
                                  (asteroids gd)[i := ServerGameData_retarget ch k (players gd) asteroid]\<rparr>,
                             k + 4)
                     else ServerGameData_updateAsteroids ch i
                            (gd\<lparr>asteroids := splice1 i (asteroids gd)\<rparr>, k))
               else ServerGameData_updateAsteroids ch (i + 1)
                      (gd\<lparr>asteroids := (asteroids gd)[i := asteroid]\<rparr>, k))
      else (gd, k))"
  by pat_completeness auto
termination
  by (relation "measure (\<lambda>(ch, i, gd, k). length (asteroids gd) - i)") (auto simp: splice1_def)

declare ServerGameData_updateAsteroids.simps [simp del]

text \<open>The first collision pass, \<open>let i = asteroids.length; while (i--)
  asteroids[i].checkCollidedWith(bullets)\<close>. The array changes while the loop runs; reading
  past its end yields \<open>undefined\<close>, the call on it throws, and the tick does not return:
  \<open>None\<close>.\<close>

fun ServerGameData_asteroidsCheck :: "detector \<Rightarrow> chance \<Rightarrow> nat \<Rightarrow> Server \<Rightarrow> Server option" where
  "ServerGameData_asteroidsCheck hits ch 0 st = Some st"
| "ServerGameData_asteroidsCheck hits ch (Suc i) st =
     (if i < length (asteroids (gameData st))
      then ServerGameData_asteroidsCheck hits ch i
             (ServerAsteroid_checkCollidedWith hits ch (asteroids (gameData st) ! i)
                [map Bullet (bullets (bulletHouse (gameData st)))] st)
      else None)"

text \<open>The second pass, \<open>players.forEach(player => player.checkCollidedWith(asteroids,
  bullets))\<close>. \<open>Map.forEach\<close> visits the entries in order and skips one that was deleted
  before its turn: the loop runs over the keys the map had and reads each entry when its
  turn comes.\<close>

fun ServerGameData_playersCheck :: "detector \<Rightarrow> chance \<Rightarrow> string list \<Rightarrow> Server \<Rightarrow> Server" where
  "ServerGameData_playersCheck hits ch [] st = st"
| "ServerGameData_playersCheck hits ch (key # keys) st =
     ServerGameData_playersCheck hits ch keys
       (case Map_get key (players (gameData st)) of
          None \<Rightarrow> st
        | Some player \<Rightarrow>
            ServerPlayer_checkCollidedWith hits ch player
              [map Asteroid (asteroids (gameData st)),
               map Bullet (bullets (bulletHouse (gameData st)))] st)"

text \<open>The top-up at the end of \<open>update\<close>; \<open>players.size\<close> is the number of entries.\<close>

definition ServerGameData_topUp :: "chance \<Rightarrow> ServerGameData \<times> nat \<Rightarrow> ServerGameData \<times> nat" where
  "ServerGameData_topUp ch = (\<lambda>(gd, k).
     let neededBigAsteroidCount =
           max ServerGameData_minBigAsteroidCount
             (int (length (players gd)) * ServerGameData_bigAsteroidCountMultiplesOfPlayer)
     in if curBigAsteroidsCount gd < neededBigAsteroidCount
        then (let count = neededBigAsteroidCount - curBigAsteroidsCount gd
              in ServerGameData_pushBigAsteroids ch (nat count) (gd, k))
        else (gd, k))"

text \<open>\<open>ServerGameData.update\<close>. It runs on the state of the server, because the
  collision passes call the game event handlers of the server.\<close>

definition ServerGameData_update :: "detector \<Rightarrow> chance \<Rightarrow> Server \<Rightarrow> Server option" where
  "ServerGameData_update hits ch st =
     (let gd = gameData st;
          (ps, bh, k1) = ServerGameData_updatePlayers ch (players gd) (bulletHouse gd, slot st);
          bh1 = BulletHouse_update ServerGameData_width ServerGameData_height bh;
          (gd1, k2) = ServerGameData_updateAsteroids ch 0 (gd\<lparr>players := ps, bulletHouse := bh1\<rparr>, k1);
          st1 = st\<lparr>gameData := gd1, slot := k2\<rparr>
      in case ServerGameData_asteroidsCheck hits ch (length (asteroids gd1)) st1 of
           None \<Rightarrow> None
         | Some st2 \<Rightarrow>
             (let st3 = ServerGameData_playersCheck hits ch (map fst (players (gameData st2))) st2;
                  (gd2, k3) = ServerGameData_topUp ch (gameData st3, slot st3)
              in Some (st3\<lparr>gameData := gd2, slot := k3\<rparr>)))"

section \<open>The events of the server\<close>

definition Server_gameUpdateLoop :: "detector \<Rightarrow> chance \<Rightarrow> Server \<Rightarrow> Server option" where
  "Server_gameUpdateLoop hits ch st =
     (case ServerGameData_update hits ch st of
        None \<Rightarrow> None
      | Some st1 \<Rightarrow>
          Some (st1\<lparr>outbox := outbox st1 @ map (\<lambda>socket. GameDataEvent (s_id socket)) (connectedSockets st1)\<rparr>))"

definition Server_onConnectedEvent :: "string \<Rightarrow> Server \<Rightarrow> Server" where
  "Server_onConnectedEvent sid st =
     st\<lparr>connectedSockets := connectedSockets st @ [\<lparr>s_id = sid, s_me = None\<rparr>]\<rparr>"

text \<open>The socket events name their socket by its id; an event for a socket that is not
  connected changes nothing.\<close>

definition Server_onDisconnectedEvent :: "string \<Rightarrow> Server \<Rightarrow> Server" where
  "Server_onDisconnectedEvent sid st =
     (case findIndex (\<lambda>v. s_id v = sid) (connectedSockets st) of
        None \<Rightarrow> st
      | Some i \<Rightarrow>
          (let socket = connectedSockets st ! i;
               st1 = st\<lparr>connectedSockets := splice1 i (connectedSockets st)\<rparr>
           in case s_me socket of
                None \<Rightarrow> st1
              | Some me \<Rightarrow>
                  st1\<lparr>gameData :=
                        ServerGameData_recycleBulletsByFirerId me
                          (snd (ServerGameData_removePlayerById me (gameData st1))),
                      outbox := outbox st1 @ [PlayerLeftEvent sid me]\<rparr>))"

definition Server_onTryLoggingInEvent :: "chance \<Rightarrow> string \<Rightarrow> string \<Rightarrow> RGBColor \<Rightarrow> Server \<Rightarrow> Server" where
  "Server_onTryLoggingInEvent ch sid name color st =
     (case findIndex (\<lambda>v. s_id v = sid) (connectedSockets st) of
        None \<Rightarrow> st
      | Some i \<Rightarrow>
          (let socket = connectedSockets st ! i
           in if s_me socket \<noteq> None then st
              else (let (newPlayer, gd) =
                          ServerGameData_addPlayer ch (slot st) (s_id socket) name color (gameData st)
                    in st\<lparr>gameData := gd,
                          connectedSockets := (connectedSockets st)[i := socket\<lparr>s_me := Some (p_id newPlayer)\<rparr>],
                          outbox := outbox st @ [LoggedInEvent sid (p_id newPlayer)],
                          slot := slot st + 1\<rparr>)))"

definition Server_onPlayerInputEvent :: "string \<Rightarrow> PlayerInputDTO \<Rightarrow> Server \<Rightarrow> Server" where
  "Server_onPlayerInputEvent sid playerInput st =
     (case findIndex (\<lambda>v. s_id v = sid) (connectedSockets st) of
        None \<Rightarrow> st
      | Some i \<Rightarrow>
          (case s_me (connectedSockets st ! i) of
             None \<Rightarrow> st
           | Some me \<Rightarrow>
               st\<lparr>gameData :=
                     (gameData st)\<lparr>players :=
                        Map_modify me (ServerPlayer_applyInput playerInput) (players (gameData st))\<rparr>\<rparr>))"

text \<open>The states the server reaches: it starts, sockets connect, log in, send input and
  disconnect, and the game loop ticks.\<close>

inductive reachable :: "detector \<Rightarrow> chance \<Rightarrow> Server \<Rightarrow> bool" for hits ch where
  start: "reachable hits ch (new_Server ch)"
| tick: "reachable hits ch st \<Longrightarrow> Server_gameUpdateLoop hits ch st = Some st' \<Longrightarrow> reachable hits ch st'"
| connected: "reachable hits ch st \<Longrightarrow> reachable hits ch (Server_onConnectedEvent sid st)"
| disconnected: "reachable hits ch st \<Longrightarrow> reachable hits ch (Server_onDisconnectedEvent sid st)"
| loggingIn: "reachable hits ch st \<Longrightarrow> reachable hits ch (Server_onTryLoggingInEvent ch sid name color st)"
| playerInput: "reachable hits ch st \<Longrightarrow> reachable hits ch (Server_onPlayerInputEvent sid playerInput st)"

section \<open>Properties: the notions the theorems use\<close>

subsection \<open>The pool\<close>

text \<open>A projectile as \<open>prepareRecycle\<close> leaves it: no firer, at the out-of-play
  position, at rest, and not flagged.\<close>

definition ServerBullet_isReset :: "ServerBullet \<Rightarrow> bool" where
  "ServerBullet_isReset b \<longleftrightarrow>
     b_firerId b = None \<and> b_x b = - 1000 \<and> b_y b = - 1000
     \<and> b_velocity b = \<lparr>vx = 0, vy = 0\<rparr> \<and> \<not> b_needsToBeRecycled b"



definition first_of :: "('a \<Rightarrow> bool) \<Rightarrow> 'a list \<Rightarrow> 'a list" where
  "first_of P xs = take 1 (dropWhile (\<lambda>x. \<not> P x) xs)"

definition BulletHouse_refs :: "BulletHouse \<Rightarrow> nat list" where
  "BulletHouse_refs bh = map b_ref (bullets bh @ recycledBullets bh)"

text \<open>The two lists together hold every object the pool has constructed exactly once,
  and every recycled one is reset.\<close>

definition pool_inv :: "BulletHouse \<Rightarrow> bool" where
  "pool_inv bh \<longleftrightarrow>
     mset (BulletHouse_refs bh) = mset [0..<allocated bh]
     \<and> (\<forall>b\<in>set (recycledBullets bh). ServerBullet_isReset b)"

text \<open>The pools that the four operations of \<open>BulletHouse\<close> produce from a new one,
  with any arguments.\<close>

inductive pool_reachable :: "BulletHouse \<Rightarrow> bool" where
  pool_new: "pool_reachable new_BulletHouse"
| pool_fire: "pool_reachable bh \<Longrightarrow> pool_reachable (BulletHouse_fireBullet uid firerId x y heading color bh)"
| pool_update: "pool_reachable bh \<Longrightarrow> pool_reachable (BulletHouse_update width height bh)"
| pool_recycleById: "pool_reachable bh \<Longrightarrow> pool_reachable (BulletHouse_recycleBulletById ident bh)"
| pool_recycleByFirer: "pool_reachable bh \<Longrightarrow> pool_reachable (BulletHouse_recycleBulletsByFirerId firerId bh)"

subsection \<open>The counter of big asteroids\<close>

definition bigCount :: "ServerGameData \<Rightarrow> int" where
  "bigCount gd = int (length (filter a_isBig (asteroids gd)))"

text \<open>The counter holds the number of big asteroids of the collection.\<close>

definition counter_inv :: "ServerGameData \<Rightarrow> bool" where
  "counter_inv gd \<longleftrightarrow> curBigAsteroidsCount gd = bigCount gd"

subsection \<open>The stages of a tick\<close>

text \<open>The state after the first three steps of \<open>update\<close> (ships, pool, asteroids),
  before the collision passes.\<close>

definition tick_moved :: "chance \<Rightarrow> Server \<Rightarrow> Server" where
  "tick_moved ch st =
     (let gd = gameData st;
          (ps, bh, k1) = ServerGameData_updatePlayers ch (players gd) (bulletHouse gd, slot st);
          bh1 = BulletHouse_update ServerGameData_width ServerGameData_height bh;
          (gd1, k2) = ServerGameData_updateAsteroids ch 0 (gd\<lparr>players := ps, bulletHouse := bh1\<rparr>, k1)
      in st\<lparr>gameData := gd1, slot := k2\<rparr>)"

subsection \<open>The collection of ships\<close>

text \<open>The keys of the collection are distinct and every ship is stored under its own
  id.\<close>

definition wf_players :: "(string \<times> ServerPlayer) list \<Rightarrow> bool" where
  "wf_players ps \<longleftrightarrow> distinct (map fst ps) \<and> (\<forall>e\<in>set ps. p_id (snd e) = fst e)"

text \<open>The ship under \<open>key\<close> is in the collection with countdown \<open>c\<close>.\<close>

definition shielded :: "string \<Rightarrow> int \<Rightarrow> (string \<times> ServerPlayer) list \<Rightarrow> bool" where
  "shielded key c ps \<longleftrightarrow> (\<exists>p. Map_get key ps = Some p \<and> p_invincibleCountdown p = c)"

text \<open>What the collision passes keep for a ship they do not resolve: the collection is
  well-formed and the ship under \<open>key\<close> is in it with countdown \<open>c\<close>.\<close>

definition guarded :: "string \<Rightarrow> int \<Rightarrow> Server \<Rightarrow> bool" where
  "guarded key c st \<longleftrightarrow>
     wf_players (players (gameData st)) \<and> shielded key c (players (gameData st))"

subsection \<open>The ids of the asteroids\<close>

text \<open>The ids of the asteroids are distinct and were all read from slots below \<open>k\<close>.\<close>

definition ids_ok :: "chance \<Rightarrow> ServerAsteroid list \<Rightarrow> nat \<Rightarrow> bool" where
  "ids_ok ch xs k \<longleftrightarrow> distinct (map a_id xs) \<and> (\<forall>a\<in>set xs. \<exists>j<k. a_id a = uuid ch j)"

text \<open>The ids of the asteroids of a state are in order with respect to its next free
  slot, and the asteroids \<open>pre\<close> are the first of the collection.\<close>

definition keeps :: "chance \<Rightarrow> ServerAsteroid list \<Rightarrow> Server \<Rightarrow> bool" where
  "keeps ch pre st \<longleftrightarrow>
     ids_ok ch (asteroids (gameData st)) (slot st)
     \<and> take (length pre) (asteroids (gameData st)) = pre"

subsection \<open>Concrete inputs\<close>

definition example_chance :: chance where
  "example_chance =
     \<lparr>Math_random = (\<lambda>k. 1 / 2), Utils_randInt = (\<lambda>k lo hi. lo), Utils_pickRandom = (\<lambda>k n. 0),
      uuid = (\<lambda>k. replicate k (CHR ''u'')), Date_now = (\<lambda>k. 1000 * real k)\<rparr>"

definition example_color :: RGBColor where
  "example_color = \<lparr>rgb_r = 255, rgb_g = 0, rgb_b = 0\<rparr>"

definition example_player :: ServerPlayer where
  "example_player = new_ServerPlayer example_chance 0 ''s1'' ''ann'' example_color 2000 2000"

definition example_bullet :: ServerBullet where
  "example_bullet =
     (new_ServerBullet 0 ''b0'')\<lparr>b_x := 3995, b_y := 100, b_firerId := Some ''s1'',
        b_velocity := \<lparr>vx = 10, vy = 0\<rparr>\<rparr>"

definition example_pool :: BulletHouse where
  "example_pool = \<lparr>recycledBullets = [], bullets = [example_bullet], allocated = 1\<rparr>"

definition example_fired_pool :: BulletHouse where
  "example_fired_pool = BulletHouse_fireBullet ''b0'' ''s1'' 5 6 0 example_color new_BulletHouse"

definition example_asteroid :: ServerAsteroid where
  "example_asteroid = fst (new_ServerAsteroid example_chance 0 4000 4000 True)"

definition example_gameData :: ServerGameData where
  "example_gameData =
     \<lparr>players = [], bulletHouse = new_BulletHouse, asteroids = [example_asteroid],
      curBigAsteroidsCount = 1\<rparr>"




text \<open>A detection that reports no collision.\<close>

definition example_hits :: detector where
  "example_hits = (\<lambda>st obj othersArray. [])"

text \<open>The server after socket \<open>s1\<close> has connected and logged in.\<close>

definition example_logged_in :: Server where
  "example_logged_in =
     Server_onTryLoggingInEvent example_chance ''s1'' ''ann'' example_color
       (Server_onConnectedEvent ''s1'' (new_Server example_chance))"
section \<open>Proofs\<close>

subsection \<open>Arrays\<close>

lemma findIndex_Some:
  "findIndex P xs = Some i \<Longrightarrow> i < length xs \<and> P (xs ! i) \<and> (\<forall>j<i. \<not> P (xs ! j))"
proof (induction xs arbitrary: i)
  case Nil
  then show ?case by simp
next
  case (Cons x xs)
  show ?case
  proof (cases "P x")
    case True
    with Cons.prems show ?thesis by simp
  next
    case False
    with Cons.prems obtain j where j: "findIndex P xs = Some j" "i = Suc j"
      by (auto split: option.splits)
    from Cons.IH [OF j(1)] False j(2) show ?thesis
      by (auto simp: nth_Cons split: nat.splits)
  qed
qed

lemma findIndex_None: "findIndex P xs = None \<longleftrightarrow> (\<forall>x\<in>set xs. \<not> P x)"
  by (induction xs) (auto split: option.splits)

lemma length_splice1: "i < length xs \<Longrightarrow> length (splice1 i xs) = length xs - 1"
  by (simp add: splice1_def)

lemma mset_splice1: "i < length xs \<Longrightarrow> add_mset (xs ! i) (mset (splice1 i xs)) = mset xs"
proof -
  assume "i < length xs"
  then have "xs = take i xs @ xs ! i # drop (Suc i) xs"
    by (simp add: id_take_nth_drop)
  then have "mset xs = mset (take i xs) + add_mset (xs ! i) (mset (drop (Suc i) xs))"
    by (metis mset.simps(2) mset_append)
  then show ?thesis by (simp add: splice1_def)
qed

lemma remove1_nth_distinct:
  "distinct xs \<Longrightarrow> i < length xs \<Longrightarrow> remove1 (xs ! i) xs = splice1 i xs"
  unfolding splice1_def
  by (induction xs arbitrary: i) (auto simp: nth_Cons split: nat.splits)

subsection \<open>The loops of the pool in closed form\<close>

lemma prepareRecycle_isReset: "ServerBullet_isReset (ServerBullet_prepareRecycle b)"
  by (simp add: ServerBullet_isReset_def ServerBullet_prepareRecycle_def Victor_multiplyScalar_def)

lemma b_ref_prepareRecycle: "b_ref (ServerBullet_prepareRecycle b) = b_ref b"
  by (simp add: ServerBullet_prepareRecycle_def)

lemma b_ref_update: "b_ref (ServerBullet_update w h b) = b_ref b"
  by (simp add: ServerBullet_update_def Let_def)

lemma b_ref_setInitValues: "b_ref (ServerBullet_setInitValues f x y hdg c b) = b_ref b"
  by (simp add: ServerBullet_setInitValues_def)

lemma BulletHouse_update_loop_eq:
  "i \<le> length (bullets bh) \<Longrightarrow>
   BulletHouse_update_loop w h i bh =
     bh\<lparr>recycledBullets :=
          recycledBullets bh @
          rev (map ServerBullet_prepareRecycle
                (filter b_needsToBeRecycled (map (ServerBullet_update w h) (take i (bullets bh))))),
        bullets :=
          filter (\<lambda>b. \<not> b_needsToBeRecycled b) (map (ServerBullet_update w h) (take i (bullets bh)))
          @ drop i (bullets bh)\<rparr>"
proof (induction i arbitrary: bh)
  case 0
  then show ?case by simp
next
  case (Suc i)
  let ?bs = "bullets bh"
  let ?b = "ServerBullet_update w h (?bs ! i)"
  from Suc.prems have i: "i < length ?bs" by simp
  have tk: "take (Suc i) ?bs = take i ?bs @ [?bs ! i]"
    using i by (simp add: take_Suc_conv_app_nth)
  show ?case
  proof (cases "b_needsToBeRecycled ?b")
    case True
    let ?bh1 = "bh\<lparr>recycledBullets := recycledBullets bh @ [ServerBullet_prepareRecycle ?b],
                    bullets := splice1 i ?bs\<rparr>"
    have len: "i \<le> length (bullets ?bh1)" using i by (simp add: splice1_def)
    have t1: "take i (bullets ?bh1) = take i ?bs" using i by (simp add: splice1_def)
    have d1: "drop i (bullets ?bh1) = drop (Suc i) ?bs" using i by (simp add: splice1_def)
    show ?thesis
      using True Suc.IH [OF len] by (simp only: BulletHouse_update_loop.simps Let_def if_True t1 d1 tk)
        (simp)
  next
    case False
    let ?bh1 = "bh\<lparr>bullets := ?bs[i := ?b]\<rparr>"
    have len: "i \<le> length (bullets ?bh1)" using i by simp
    have t1: "take i (bullets ?bh1) = take i ?bs" by simp
    have d1: "drop i (bullets ?bh1) = ?b # drop (Suc i) ?bs"
      using i by (simp add: drop_update_cancel upd_conv_take_nth_drop)
    show ?thesis
      using False Suc.IH [OF len] by (simp only: BulletHouse_update_loop.simps Let_def if_False t1 d1 tk)
        (simp)
  qed
qed

lemma BulletHouse_update_eq:
  "BulletHouse_update w h bh =
     bh\<lparr>recycledBullets :=
          recycledBullets bh @
          rev (map ServerBullet_prepareRecycle
                (filter b_needsToBeRecycled (map (ServerBullet_update w h) (bullets bh)))),
        bullets :=
          filter (\<lambda>b. \<not> b_needsToBeRecycled b) (map (ServerBullet_update w h) (bullets bh))\<rparr>"
  by (simp add: BulletHouse_update_def BulletHouse_update_loop_eq)

lemma BulletHouse_recycleByFirer_loop_eq:
  "i \<le> length (bullets bh) \<Longrightarrow>
   BulletHouse_recycleByFirer_loop f i bh =
     bh\<lparr>recycledBullets :=
          recycledBullets bh @
          rev (map ServerBullet_prepareRecycle
                (filter (\<lambda>b. b_firerId b = Some f) (take i (bullets bh)))),
        bullets :=
          filter (\<lambda>b. b_firerId b \<noteq> Some f) (take i (bullets bh)) @ drop i (bullets bh)\<rparr>"
proof (induction i arbitrary: bh)
  case 0
  then show ?case by simp
next
  case (Suc i)
  let ?bs = "bullets bh"
  let ?b = "?bs ! i"
  from Suc.prems have i: "i < length ?bs" by simp
  have tk: "take (Suc i) ?bs = take i ?bs @ [?bs ! i]"
    using i by (simp add: take_Suc_conv_app_nth)
  show ?case
  proof (cases "b_firerId ?b = Some f")
    case True
    let ?bh1 = "bh\<lparr>recycledBullets := recycledBullets bh @ [ServerBullet_prepareRecycle ?b],
                    bullets := splice1 i ?bs\<rparr>"
    have len: "i \<le> length (bullets ?bh1)" using i by (simp add: splice1_def)
    have t1: "take i (bullets ?bh1) = take i ?bs" using i by (simp add: splice1_def)
    have d1: "drop i (bullets ?bh1) = drop (Suc i) ?bs" using i by (simp add: splice1_def)
    show ?thesis
      using True Suc.IH [OF len]
      by (simp only: BulletHouse_recycleByFirer_loop.simps Let_def if_True t1 d1 tk) (simp)
  next
    case False
    have len: "i \<le> length (bullets bh)" using i by simp
    have d1: "drop i ?bs = ?b # drop (Suc i) ?bs"
      using i by (simp add: Cons_nth_drop_Suc)
    show ?thesis
      using False Suc.IH [OF len]
      by (simp only: BulletHouse_recycleByFirer_loop.simps Let_def if_False d1 tk) (simp)
  qed
qed

lemma BulletHouse_recycleBulletsByFirerId_eq:
  "BulletHouse_recycleBulletsByFirerId f bh =
     bh\<lparr>recycledBullets :=
          recycledBullets bh @
          rev (map ServerBullet_prepareRecycle (filter (\<lambda>b. b_firerId b = Some f) (bullets bh))),
        bullets := filter (\<lambda>b. b_firerId b \<noteq> Some f) (bullets bh)\<rparr>"
  by (simp add: BulletHouse_recycleBulletsByFirerId_def BulletHouse_recycleByFirer_loop_eq)

subsection \<open>The invariant of the pool\<close>

lemma pool_inv_new: "pool_inv new_BulletHouse"
  by (simp add: pool_inv_def new_BulletHouse_def BulletHouse_refs_def)

lemma refs_moved:
  assumes "\<And>b. b_ref (f b) = b_ref b" and "\<And>b. b_ref (g b) = b_ref b"
  shows "mset (map b_ref (filter (\<lambda>b. \<not> P b) (map f bs) @ rs @ rev (map g (filter P (map f bs)))))
         = mset (map b_ref (bs @ rs))"
  by (induction bs) (simp_all add: assms)

lemma refs_moved_plain:
  assumes "\<And>b. b_ref (g b) = b_ref b"
  shows "mset (map b_ref (filter (\<lambda>b. \<not> P b) bs @ rs @ rev (map g (filter P bs))))
         = mset (map b_ref (bs @ rs))"
  using refs_moved [where f = "\<lambda>b. b" and g = g and P = P and bs = bs and rs = rs] assms by simp

lemma pool_inv_update:
  assumes "pool_inv bh"
  shows "pool_inv (BulletHouse_update w h bh)"
proof -
  have "mset (BulletHouse_refs (BulletHouse_update w h bh)) = mset (BulletHouse_refs bh)"
    unfolding BulletHouse_refs_def BulletHouse_update_eq
    using refs_moved [where f = "ServerBullet_update w h" and g = ServerBullet_prepareRecycle
        and P = b_needsToBeRecycled and bs = "bullets bh" and rs = "recycledBullets bh"]
    by (simp add: b_ref_update b_ref_prepareRecycle)
  moreover have "allocated (BulletHouse_update w h bh) = allocated bh"
    by (simp add: BulletHouse_update_eq)
  moreover have "\<forall>b\<in>set (recycledBullets (BulletHouse_update w h bh)). ServerBullet_isReset b"
    using assms by (auto simp: BulletHouse_update_eq pool_inv_def prepareRecycle_isReset)
  ultimately show ?thesis using assms by (simp add: pool_inv_def)
qed

lemma pool_inv_recycleByFirer:
  assumes "pool_inv bh"
  shows "pool_inv (BulletHouse_recycleBulletsByFirerId f bh)"
proof -
  have "mset (BulletHouse_refs (BulletHouse_recycleBulletsByFirerId f bh)) = mset (BulletHouse_refs bh)"
    unfolding BulletHouse_refs_def BulletHouse_recycleBulletsByFirerId_eq
    using refs_moved_plain [where g = ServerBullet_prepareRecycle
        and P = "\<lambda>b. b_firerId b = Some f" and bs = "bullets bh" and rs = "recycledBullets bh"]
    by (simp add: b_ref_prepareRecycle)
  moreover have "allocated (BulletHouse_recycleBulletsByFirerId f bh) = allocated bh"
    by (simp add: BulletHouse_recycleBulletsByFirerId_eq)
  moreover have "\<forall>b\<in>set (recycledBullets (BulletHouse_recycleBulletsByFirerId f bh)). ServerBullet_isReset b"
    using assms by (auto simp: BulletHouse_recycleBulletsByFirerId_eq pool_inv_def prepareRecycle_isReset)
  ultimately show ?thesis using assms by (simp add: pool_inv_def)
qed

lemma pool_inv_recycleById:
  assumes "pool_inv bh"
  shows "pool_inv (BulletHouse_recycleBulletById ident bh)"
proof (cases "findIndex (\<lambda>bullet. b_id bullet = ident) (bullets bh)")
  case None
  with assms show ?thesis by (simp add: BulletHouse_recycleBulletById_def)
next
  case (Some i)
  let ?bh' = "BulletHouse_recycleBulletById ident bh"
  from Some have i: "i < length (bullets bh)" by (simp add: findIndex_Some)
  have eq: "?bh' = bh\<lparr>recycledBullets :=
               recycledBullets bh @ [ServerBullet_prepareRecycle (bullets bh ! i)],
             bullets := splice1 i (bullets bh)\<rparr>"
    using Some by (simp add: BulletHouse_recycleBulletById_def)
  have "mset (map b_ref (bullets bh)) = add_mset (b_ref (bullets bh ! i)) (mset (map b_ref (splice1 i (bullets bh))))"
    by (subst (1) id_take_nth_drop [OF i]) (simp add: splice1_def)
  then have "mset (BulletHouse_refs ?bh') = mset (BulletHouse_refs bh)"
    by (simp add: eq BulletHouse_refs_def b_ref_prepareRecycle)
  moreover have "allocated ?bh' = allocated bh" by (simp add: eq)
  moreover have "\<forall>b\<in>set (recycledBullets ?bh'). ServerBullet_isReset b"
    using assms by (auto simp: eq pool_inv_def prepareRecycle_isReset)
  ultimately show ?thesis using assms by (simp add: pool_inv_def)
qed

lemma pool_inv_fire:
  assumes "pool_inv bh"
  shows "pool_inv (BulletHouse_fireBullet uid f x y hdg c bh)"
proof (cases "recycledBullets bh = []")
  case True
  let ?bh' = "BulletHouse_fireBullet uid f x y hdg c bh"
  have eq: "?bh' = bh\<lparr>allocated := Suc (allocated bh),
      bullets := bullets bh @ [ServerBullet_setInitValues f x y hdg c (new_ServerBullet (allocated bh) uid)]\<rparr>"
    using True by (simp add: BulletHouse_fireBullet_def BulletHouse_createOrGetBullet_def)
  have "mset (BulletHouse_refs ?bh') = add_mset (allocated bh) (mset (BulletHouse_refs bh))"
    by (simp add: eq BulletHouse_refs_def b_ref_setInitValues new_ServerBullet_def)
  with assms True show ?thesis
    by (simp add: pool_inv_def eq)
next
  case False
  let ?bh' = "BulletHouse_fireBullet uid f x y hdg c bh"
  have eq: "?bh' = bh\<lparr>recycledBullets := butlast (recycledBullets bh),
      bullets := bullets bh @ [ServerBullet_setInitValues f x y hdg c (last (recycledBullets bh))]\<rparr>"
    using False by (simp add: BulletHouse_fireBullet_def BulletHouse_createOrGetBullet_def)
  from False obtain ys y where snoc: "recycledBullets bh = ys @ [y]"
    by (cases "recycledBullets bh" rule: rev_cases) simp_all
  have "mset (map b_ref (recycledBullets bh))
        = add_mset (b_ref (last (recycledBullets bh))) (mset (map b_ref (butlast (recycledBullets bh))))"
    by (simp add: snoc)
  then have "mset (BulletHouse_refs ?bh') = mset (BulletHouse_refs bh)"
    by (simp add: eq BulletHouse_refs_def b_ref_setInitValues)
  moreover have "allocated ?bh' = allocated bh" by (simp add: eq)
  moreover have "\<forall>b\<in>set (recycledBullets ?bh'). ServerBullet_isReset b"
    using assms by (auto simp: eq pool_inv_def dest: in_set_butlastD)
  ultimately show ?thesis using assms by (simp add: pool_inv_def)
qed

lemma pool_reachable_inv: "pool_reachable bh \<Longrightarrow> pool_inv bh"
  by (induction rule: pool_reachable.induct)
     (simp_all add: pool_inv_new pool_inv_fire pool_inv_update pool_inv_recycleById
        pool_inv_recycleByFirer)

lemma pool_inv_distinct:
  assumes "pool_inv bh"
  shows "distinct (BulletHouse_refs bh)" and "set (BulletHouse_refs bh) = {..<allocated bh}"
proof -
  from assms have m: "mset (BulletHouse_refs bh) = mset [0..<allocated bh]"
    by (simp add: pool_inv_def)
  show "distinct (BulletHouse_refs bh)"
    using mset_eq_imp_distinct_iff [OF m] by simp
  show "set (BulletHouse_refs bh) = {..<allocated bh}"
    using mset_eq_setD [OF m] by (simp add: lessThan_atLeast0)
qed

text \<open>
  Claim C2. Between the operations of the pool, every projectile it has handed out (every
  object identity below \<open>allocated\<close>) is on the active list or on the recycled list,
  and on the two lists together exactly once; every projectile on the recycled list is
  reset: no firer id, at the out-of-play position \<open>(-1000, -1000)\<close>, at rest, recycle
  flag cleared.
\<close>

theorem pool_partition:
  assumes "pool_reachable bh"
  shows "(\<forall>r. r < allocated bh \<longleftrightarrow>
            r \<in> b_ref ` set (bullets bh) \<or> r \<in> b_ref ` set (recycledBullets bh))
       \<and> distinct (map b_ref (bullets bh) @ map b_ref (recycledBullets bh))
       \<and> (\<forall>b\<in>set (recycledBullets bh).
            b_firerId b = None \<and> b_x b = - 1000 \<and> b_y b = - 1000
            \<and> b_velocity b = \<lparr>vx = 0, vy = 0\<rparr> \<and> \<not> b_needsToBeRecycled b)"
proof -
  from assms have inv: "pool_inv bh" by (rule pool_reachable_inv)
  from pool_inv_distinct [OF inv] have "distinct (map b_ref (bullets bh) @ map b_ref (recycledBullets bh))"
    and "set (map b_ref (bullets bh) @ map b_ref (recycledBullets bh)) = {..<allocated bh}"
    by (simp_all add: BulletHouse_refs_def)
  moreover from inv have "\<forall>b\<in>set (recycledBullets bh). ServerBullet_isReset b"
    by (simp add: pool_inv_def)
  ultimately show ?thesis
    by (auto simp: ServerBullet_isReset_def)
qed

theorem pool_partition_witness:
  "bullets (BulletHouse_recycleBulletsByFirerId ''s1'' example_fired_pool) = []
   \<and> map b_ref (recycledBullets (BulletHouse_recycleBulletsByFirerId ''s1'' example_fired_pool)) = [0]
   \<and> b_firerId (last (recycledBullets (BulletHouse_recycleBulletsByFirerId ''s1'' example_fired_pool))) = None
   \<and> allocated (BulletHouse_recycleBulletsByFirerId ''s1'' example_fired_pool) = 1"
  using pool_partition [OF pool_recycleByFirer [OF pool_fire [OF pool_new]],
      of "''s1''" "''b0''" "''s1''" 5 6 0 example_color]
  by (simp add: example_fired_pool_def BulletHouse_recycleBulletsByFirerId_eq
      BulletHouse_fireBullet_def BulletHouse_createOrGetBullet_def new_BulletHouse_def
      new_ServerBullet_def ServerBullet_setInitValues_def ServerBullet_prepareRecycle_def)

subsection \<open>The recycle flag\<close>

text \<open>
  Claim C7. A tick update of a projectile moves it by its velocity and sets the recycle
  flag exactly when the flag was set before or the new position is outside
  \<open>[0, width] \<times> [0, height]\<close>: an unflagged projectile is flagged by the first update that
  takes it out, and a flagged one stays flagged. Re-initialising keeps the flag, only the
  reset of the pool clears it. The update of the pool keeps the moved projectiles that are
  not flagged and appends the flagged ones, reset, to the recycled list: a projectile
  flagged by this update is on the recycled list, reset, and no longer on the active list,
  and no projectile on the active list is flagged afterwards.
\<close>

theorem bullet_flag_and_recycling:
  "(let b' = ServerBullet_update width height b
    in b_x b' = b_x b + vx (b_velocity b) \<and> b_y b' = b_y b + vy (b_velocity b)
       \<and> (b_needsToBeRecycled b' \<longleftrightarrow>
            b_needsToBeRecycled b \<or> b_x b' > width \<or> b_x b' < 0 \<or> b_y b' > height \<or> b_y b' < 0))
   \<and> b_needsToBeRecycled (ServerBullet_setInitValues firerId x y heading color b) = b_needsToBeRecycled b
   \<and> \<not> b_needsToBeRecycled (ServerBullet_prepareRecycle b)
   \<and> (let moved = map (ServerBullet_update width height) (bullets bh);
           bh' = BulletHouse_update width height bh
       in bullets bh' = filter (\<lambda>b. \<not> b_needsToBeRecycled b) moved
          \<and> recycledBullets bh' =
              recycledBullets bh @ rev (map ServerBullet_prepareRecycle (filter b_needsToBeRecycled moved))
          \<and> (\<forall>c\<in>set (bullets bh). b_needsToBeRecycled (ServerBullet_update width height c) \<longrightarrow>
                ServerBullet_prepareRecycle (ServerBullet_update width height c) \<in> set (recycledBullets bh')
                \<and> (distinct (map b_ref (bullets bh)) \<longrightarrow> b_ref c \<notin> b_ref ` set (bullets bh')))
          \<and> (\<forall>c\<in>set (bullets bh'). \<not> b_needsToBeRecycled c))"
proof -
  have flag: "(let b' = ServerBullet_update width height b
    in b_x b' = b_x b + vx (b_velocity b) \<and> b_y b' = b_y b + vy (b_velocity b)
       \<and> (b_needsToBeRecycled b' \<longleftrightarrow>
            b_needsToBeRecycled b \<or> b_x b' > width \<or> b_x b' < 0 \<or> b_y b' > height \<or> b_y b' < 0))"
    by (auto simp: ServerBullet_update_def Let_def)
  have keep: "b_needsToBeRecycled (ServerBullet_setInitValues firerId x y heading color b) = b_needsToBeRecycled b"
    by (simp add: ServerBullet_setInitValues_def)
  have clear: "\<not> b_needsToBeRecycled (ServerBullet_prepareRecycle b)"
    by (simp add: ServerBullet_prepareRecycle_def)
  have gone: "b_ref c \<notin> b_ref ` set (filter (\<lambda>b. \<not> b_needsToBeRecycled b)
                  (map (ServerBullet_update width height) (bullets bh)))"
    if c: "c \<in> set (bullets bh)" and f: "b_needsToBeRecycled (ServerBullet_update width height c)"
      and d: "distinct (map b_ref (bullets bh))" for c
  proof
    assume "b_ref c \<in> b_ref ` set (filter (\<lambda>b. \<not> b_needsToBeRecycled b)
                  (map (ServerBullet_update width height) (bullets bh)))"
    then obtain e where e: "e \<in> set (bullets bh)" "\<not> b_needsToBeRecycled (ServerBullet_update width height e)"
        "b_ref (ServerBullet_update width height e) = b_ref c"
      by auto
    from e(3) have "b_ref e = b_ref c" by (simp add: b_ref_update)
    with d c e(1) have "e = c" by (meson distinct_map inj_onD)
    with e(2) f show False by simp
  qed
  have pool: "(let moved = map (ServerBullet_update width height) (bullets bh);
           bh' = BulletHouse_update width height bh
       in bullets bh' = filter (\<lambda>b. \<not> b_needsToBeRecycled b) moved
          \<and> recycledBullets bh' =
              recycledBullets bh @ rev (map ServerBullet_prepareRecycle (filter b_needsToBeRecycled moved))
          \<and> (\<forall>c\<in>set (bullets bh). b_needsToBeRecycled (ServerBullet_update width height c) \<longrightarrow>
                ServerBullet_prepareRecycle (ServerBullet_update width height c) \<in> set (recycledBullets bh')
                \<and> (distinct (map b_ref (bullets bh)) \<longrightarrow> b_ref c \<notin> b_ref ` set (bullets bh')))
          \<and> (\<forall>c\<in>set (bullets bh'). \<not> b_needsToBeRecycled c))"
    using gone by (simp add: BulletHouse_update_eq Let_def)
  from flag keep clear pool show ?thesis by (intro conjI)
qed

theorem bullet_flag_and_recycling_witness:
  "b_needsToBeRecycled (ServerBullet_update 4000 4000 example_bullet)
   \<and> bullets (BulletHouse_update 4000 4000 example_pool) = []
   \<and> recycledBullets (BulletHouse_update 4000 4000 example_pool)
       = [ServerBullet_prepareRecycle (ServerBullet_update 4000 4000 example_bullet)]"
  using bullet_flag_and_recycling [of 4000 4000 example_bullet "''s1''" 0 0 0 example_color example_pool]
  by (simp add: Let_def example_pool_def example_bullet_def new_ServerBullet_def)

subsection \<open>Firing\<close>

lemma rotate_one_one:
  "Victor_rotateBy \<lparr>vx = 1, vy = 1\<rparr> (heading + HALF_PI)
   = \<lparr>vx = - (sqrt 2 * cos heading), vy = - (sqrt 2 * sin heading)\<rparr>"
proof -
  define u where "u = heading + pi / 2"
  define t where "t = Victor_angle \<lparr>vx = 1, vy = 1\<rparr> + (heading + HALF_PI)"
  have ang: "Victor_angle \<lparr>vx = 1, vy = 1\<rparr> = pi / 4"
    by (simp add: Victor_angle_def Math_atan2_def arctan_one)
  have t: "t = u + pi / 4"
    by (simp add: t_def u_def ang HALF_PI_def)
  have cu: "cos u = - sin heading" by (simp add: u_def cos_add)
  have su: "sin u = cos heading" by (simp add: u_def sin_add)
  have c: "cos t = - sin heading * (sqrt 2 / 2) - cos heading * (sqrt 2 / 2)"
    unfolding t cos_add cu su cos_45 sin_45 ..
  have s: "sin t = cos heading * (sqrt 2 / 2) + - sin heading * (sqrt 2 / 2)"
    unfolding t sin_add cu su cos_45 sin_45 ..
  have "Victor_rotateBy \<lparr>vx = 1, vy = 1\<rparr> (heading + HALF_PI)
        = \<lparr>vx = 1 * cos t - 1 * sin t, vy = 1 * sin t + 1 * cos t\<rparr>"
    by (simp add: Victor_rotateBy_def Victor_rotate_def t_def)
  also have "\<dots> = \<lparr>vx = - (sqrt 2 * cos heading), vy = - (sqrt 2 * sin heading)\<rparr>"
    unfolding c s by simp
  finally show ?thesis .
qed

lemma magnitude_scaled_unit:
  "Victor_magnitude \<lparr>vx = - (sqrt 2 * cos heading), vy = - (sqrt 2 * sin heading)\<rparr> = sqrt 2"
proof -
  have "(- (sqrt 2 * cos heading)) * (- (sqrt 2 * cos heading))
        + (- (sqrt 2 * sin heading)) * (- (sqrt 2 * sin heading))
        = (sqrt 2 * sqrt 2) * (cos heading * cos heading + sin heading * sin heading)"
    by algebra
  also have "\<dots> = 2"
    by (simp only: sin_cos_squared_add3) simp
  finally show ?thesis by (simp add: Victor_magnitude_def)
qed

lemma velocity_from_rest:
  "Victor_multiplyScalar
     (Victor_norm (Victor_rotateBy (Victor_addScalar \<lparr>vx = 0, vy = 0\<rparr> 1) (heading + HALF_PI))) s
   = \<lparr>vx = - cos heading * s, vy = - sin heading * s\<rparr>"
proof -
  have "Victor_addScalar \<lparr>vx = 0, vy = 0\<rparr> 1 = \<lparr>vx = 1, vy = 1\<rparr>"
    by (simp add: Victor_addScalar_def)
  then show ?thesis
    by (simp add: rotate_one_one Victor_norm_def magnitude_scaled_unit Victor_multiplyScalar_def Let_def)
qed

text \<open>
  Claim C8, as stated, fails in its velocity: for heading \<open>0\<close> the unit vector along
  the heading is \<open>(1, 0)\<close>, and the projectile fired from a new pool does not move at
  the projectile speed along it.
\<close>

theorem fireBullet_velocity_counterexample:
  "b_velocity (last (bullets (BulletHouse_fireBullet ''b0'' ''s1'' 5 6 0 example_color new_BulletHouse)))
     \<noteq> Victor_multiplyScalar \<lparr>vx = cos 0, vy = sin 0\<rparr> ServerBullet_speed"
  using velocity_from_rest [of 0 ServerBullet_speed]
  by (simp add: BulletHouse_fireBullet_def BulletHouse_createOrGetBullet_def new_BulletHouse_def
      new_ServerBullet_def ServerBullet_setInitValues_def
      Victor_multiplyScalar_def ServerBullet_speed_def)

text \<open>
  Claim C8, amended. \<open>fireBullet\<close> takes the last recycled projectile if there is one
  and constructs a new one otherwise, sets its firer id, position, heading and color to
  the arguments and appends it to the active list. In a pool produced by the operations of
  \<open>BulletHouse\<close> its velocity becomes the projectile speed times the unit vector
  \<open>(- cos heading, - sin heading)\<close>, which points opposite to the angle \<open>heading\<close>;
  the other fields of the projectile are unchanged.
\<close>

theorem fireBullet_initialises:
  assumes "pool_reachable bh"
  shows "(let bh' = BulletHouse_fireBullet uid firerId x y heading color bh;
              taken = fst (BulletHouse_createOrGetBullet uid bh);
              fired = last (bullets bh')
          in (recycledBullets bh \<noteq> [] \<longrightarrow>
                taken = last (recycledBullets bh)
                \<and> recycledBullets bh' = butlast (recycledBullets bh)
                \<and> allocated bh' = allocated bh)
           \<and> (recycledBullets bh = [] \<longrightarrow>
                taken = new_ServerBullet (allocated bh) uid
                \<and> recycledBullets bh' = []
                \<and> allocated bh' = Suc (allocated bh))
           \<and> bullets bh' = bullets bh @ [fired]
           \<and> fired = taken\<lparr>b_firerId := Some firerId, b_x := x, b_y := y, b_heading := heading,
                  b_velocity := \<lparr>vx = - cos heading * ServerBullet_speed,
                                  vy = - sin heading * ServerBullet_speed\<rparr>,
                  b_color := color\<rparr>)"
proof -
  from assms have inv: "pool_inv bh" by (rule pool_reachable_inv)
  have rest: "b_velocity (fst (BulletHouse_createOrGetBullet uid bh)) = \<lparr>vx = 0, vy = 0\<rparr>"
  proof (cases "recycledBullets bh = []")
    case True
    then show ?thesis by (simp add: BulletHouse_createOrGetBullet_def new_ServerBullet_def)
  next
    case False
    then have "last (recycledBullets bh) \<in> set (recycledBullets bh)" by simp
    with inv have "ServerBullet_isReset (last (recycledBullets bh))" by (simp add: pool_inv_def)
    with False show ?thesis
      by (simp add: BulletHouse_createOrGetBullet_def ServerBullet_isReset_def)
  qed
  have init: "ServerBullet_setInitValues firerId x y heading color (fst (BulletHouse_createOrGetBullet uid bh))
     = (fst (BulletHouse_createOrGetBullet uid bh))
         \<lparr>b_firerId := Some firerId, b_x := x, b_y := y, b_heading := heading,
          b_velocity := \<lparr>vx = - cos heading * ServerBullet_speed,
                          vy = - sin heading * ServerBullet_speed\<rparr>,
          b_color := color\<rparr>"
    by (simp add: ServerBullet_setInitValues_def rest velocity_from_rest)
  show ?thesis
    using init
    by (cases "recycledBullets bh = []")
       (simp_all add: BulletHouse_fireBullet_def BulletHouse_createOrGetBullet_def Let_def)
qed

theorem fireBullet_initialises_witness:
  "b_velocity (last (bullets (BulletHouse_fireBullet ''b0'' ''s1'' 5 6 0 example_color new_BulletHouse)))
     = \<lparr>vx = - 10, vy = 0\<rparr>
   \<and> b_firerId (last (bullets (BulletHouse_fireBullet ''b0'' ''s1'' 5 6 0 example_color new_BulletHouse)))
     = Some ''s1''"
  using fireBullet_initialises [OF pool_new, of "''b0''" "''s1''" 5 6 0 example_color]
  by (simp add: Let_def ServerBullet_speed_def new_BulletHouse_def)

subsection \<open>Breaking an asteroid\<close>

lemma findIndex_by_id:
  assumes "a \<in> set xs" and "distinct (map a_id xs)"
  shows "\<exists>i. findIndex (\<lambda>v. a_id a = a_id v) xs = Some i \<and> xs ! i = a \<and> splice1 i xs = remove1 a xs"
proof -
  from assms(1) have "findIndex (\<lambda>v. a_id a = a_id v) xs \<noteq> None"
    by (auto simp: findIndex_None)
  then obtain i where i: "findIndex (\<lambda>v. a_id a = a_id v) xs = Some i" by auto
  from findIndex_Some [OF i] have len: "i < length xs" and same: "a_id a = a_id (xs ! i)" by simp_all
  from assms(2) have inj: "inj_on a_id (set xs)" and d: "distinct xs"
    by (simp_all add: distinct_map)
  from len have "xs ! i \<in> set xs" by simp
  with inj assms(1) same have eq: "xs ! i = a" by (metis inj_onD)
  from remove1_nth_distinct [OF d len] eq have "splice1 i xs = remove1 a xs" by simp
  with i eq show ?thesis by blast
qed

lemma Utils_map_unit:
  "0 \<le> r \<Longrightarrow> r < 1 \<Longrightarrow> \<bar>Utils_map r 0 1 (- 20) 20\<bar> \<le> 20"
  by (simp add: Utils_map_def abs_le_iff)

lemma createPieceOf_props:
  assumes "\<forall>j. 0 \<le> Math_random ch j \<and> Math_random ch j < 1"
  shows "\<not> a_isBig (fst (ServerAsteroid_createPieceOf ch k w h big))"
    and "\<bar>a_x (fst (ServerAsteroid_createPieceOf ch k w h big)) - a_x big\<bar> \<le> 20"
    and "\<bar>a_y (fst (ServerAsteroid_createPieceOf ch k w h big)) - a_y big\<bar> \<le> 20"
  using assms Utils_map_unit
  by (simp_all add: ServerAsteroid_createPieceOf_def new_ServerAsteroid_def Let_def split: prod.splits)

lemma example_asteroid_big: "a_isBig example_asteroid"
  by (simp add: example_asteroid_def new_ServerAsteroid_def Let_def split: prod.splits)

lemma example_chance_random: "\<forall>j. 0 \<le> Math_random example_chance j \<and> Math_random example_chance j < 1"
  by (simp add: example_chance_def)

lemma new_ServerAsteroid_id:
  "a_id (fst (new_ServerAsteroid ch k w h big)) = uuid ch k"
  "k < snd (new_ServerAsteroid ch k w h big)"
  by (simp_all add: new_ServerAsteroid_def Let_def case_prod_beta
      ServerAsteroid_bigAsteroidVertexCount_def ServerAsteroid_smallAsteroidVertexCount_def)

lemma createPieceOf_id:
  "a_id (fst (ServerAsteroid_createPieceOf ch k w h big)) = uuid ch k"
  "k < snd (ServerAsteroid_createPieceOf ch k w h big)"
  using new_ServerAsteroid_id(2) [of k ch w h False]
  by (simp_all add: ServerAsteroid_createPieceOf_def Let_def case_prod_beta new_ServerAsteroid_id(1))

lemma createPieceOf_slots:
  "snd (ServerAsteroid_createPieceOf ch k w h big) = k + 17"
  by (simp add: ServerAsteroid_createPieceOf_def new_ServerAsteroid_def Let_def case_prod_beta
      ServerAsteroid_smallAsteroidVertexCount_def)

lemma createPieceOf_target:
  "\<not> a_needNewTarget (fst (ServerAsteroid_createPieceOf ch k w h big))"
  by (simp add: ServerAsteroid_createPieceOf_def Let_def case_prod_beta)

lemma fresh_ids:
  assumes "inj (uuid ch)" and "\<forall>v\<in>set xs. \<exists>j<k. a_id v = uuid ch j"
    and "distinct (map a_id xs)"
    and "k \<le> j1" "j1 < j2" "j2 < j3"
    and "map a_id [p1, p2, p3] = [uuid ch j1, uuid ch j2, uuid ch j3]"
  shows "distinct (map a_id (remove1 a xs @ [p1, p2, p3]))"
    and "\<forall>p\<in>{p1, p2, p3}. a_id p \<notin> a_id ` set xs"
proof -
  have old: "uuid ch j \<notin> a_id ` set xs" if "k \<le> j" for j
  proof
    assume "uuid ch j \<in> a_id ` set xs"
    then obtain v where v: "v \<in> set xs" "a_id v = uuid ch j" by auto
    with assms(2) obtain i where "i < k" "a_id v = uuid ch i" by blast
    with v(2) assms(1) that show False by (auto dest: injD)
  qed
  from assms(4-6) have ks: "k \<le> j1" "k \<le> j2" "k \<le> j3" by simp_all
  from assms(7) have ids: "a_id p1 = uuid ch j1" "a_id p2 = uuid ch j2" "a_id p3 = uuid ch j3"
    by simp_all
  from ids old ks show "\<forall>p\<in>{p1, p2, p3}. a_id p \<notin> a_id ` set xs" by simp
  from assms(3) have dx: "distinct xs" and inj: "inj_on a_id (set xs)"
    by (simp_all add: distinct_map)
  from dx have dr: "distinct (remove1 a xs)" by simp
  have "inj_on a_id (set (remove1 a xs))"
    by (rule inj_on_subset [OF inj set_remove1_subset])
  with dr have d: "distinct (map a_id (remove1 a xs))"
    by (simp add: distinct_map)
  have sub: "a_id ` set (remove1 a xs) \<subseteq> a_id ` set xs"
    by (rule image_mono) (rule set_remove1_subset)
  from assms(5,6) have ne: "uuid ch j1 \<noteq> uuid ch j2" "uuid ch j1 \<noteq> uuid ch j3" "uuid ch j2 \<noteq> uuid ch j3"
    by (simp_all add: inj_eq [OF assms(1)])
  have notin: "uuid ch j \<notin> a_id ` set (remove1 a xs)" if "k \<le> j" for j
    using old [OF that] sub by blast
  show "distinct (map a_id (remove1 a xs @ [p1, p2, p3]))"
    using d ne notin [OF ks(1)] notin [OF ks(2)] notin [OF ks(3)] by (simp add: ids)
qed

lemma example_chance_uuid: "inj (uuid example_chance)"
proof (rule injI)
  fix x y :: nat
  assume "uuid example_chance x = uuid example_chance y"
  then have "length (replicate x (CHR ''u'')) = length (replicate y (CHR ''u''))"
    by (simp add: example_chance_def)
  then show "x = y" by simp
qed

lemma example_asteroid_id: "a_id example_asteroid = uuid example_chance 0"
  by (simp add: example_asteroid_def new_ServerAsteroid_id(1))

text \<open>
  Claim C3. \<open>breakAsteroid\<close> on an asteroid of the world, whose ids are distinct, with
  \<open>Math.random\<close> yielding values in \<open>[0, 1)\<close>: a big asteroid is removed and exactly
  three asteroids are appended. Each of the three is small, has its own velocity (it asks
  for no new target) and lies within 20 of the removed asteroid's position in \<open>x\<close> and
  in \<open>y\<close>; each is a new object, its id the result of a \<open>uuid()\<close> call of its own
  made during this call (three different slots from \<open>k\<close> on). So where \<open>uuid\<close> never
  repeats an id and the ids of the world were issued before this call, the three ids are
  new to the world, differ from each other and from the id of the removed asteroid, and
  the ids of the world stay distinct. The counter of big asteroids drops by one. A small
  asteroid is removed, nothing is added, nothing is drawn and the counter stays. The
  removed asteroid is gone from the list, and the ships and the pool are untouched.
\<close>

theorem breakAsteroid_splits:
  assumes "a \<in> set (asteroids gd)"
    and "distinct (map a_id (asteroids gd))"
    and "\<forall>j. 0 \<le> Math_random ch j \<and> Math_random ch j < 1"
  shows "(let (gd', k') = ServerGameData_breakAsteroid ch a (gd, k)
          in (a_isBig a \<longrightarrow>
                (\<exists>p1 p2 p3. asteroids gd' = remove1 a (asteroids gd) @ [p1, p2, p3]
                   \<and> (\<forall>p\<in>{p1, p2, p3}. \<not> a_isBig p \<and> \<not> a_needNewTarget p
                         \<and> \<bar>a_x p - a_x a\<bar> \<le> 20 \<and> \<bar>a_y p - a_y a\<bar> \<le> 20)
                   \<and> (\<exists>j1 j2 j3. k \<le> j1 \<and> j1 < j2 \<and> j2 < j3 \<and> j3 < k'
                         \<and> map a_id [p1, p2, p3] = [uuid ch j1, uuid ch j2, uuid ch j3])
                   \<and> (inj (uuid ch) \<and> (\<forall>v\<in>set (asteroids gd). \<exists>j<k. a_id v = uuid ch j)
                        \<longrightarrow> distinct (map a_id (asteroids gd'))
                            \<and> (\<forall>p\<in>{p1, p2, p3}. a_id p \<notin> a_id ` set (asteroids gd))))
                \<and> curBigAsteroidsCount gd' = curBigAsteroidsCount gd - 1)
           \<and> (\<not> a_isBig a \<longrightarrow>
                asteroids gd' = remove1 a (asteroids gd)
                \<and> curBigAsteroidsCount gd' = curBigAsteroidsCount gd \<and> k' = k)
           \<and> a \<notin> set (remove1 a (asteroids gd))
           \<and> players gd' = players gd \<and> bulletHouse gd' = bulletHouse gd)"
proof -
  from findIndex_by_id [OF assms(1,2)] obtain i where
    i: "findIndex (\<lambda>v. a_id a = a_id v) (asteroids gd) = Some i" "asteroids gd ! i = a"
       "splice1 i (asteroids gd) = remove1 a (asteroids gd)"
    by blast
  from assms(2) have "distinct (asteroids gd)" by (simp add: distinct_map)
  then have gone: "a \<notin> set (remove1 a (asteroids gd))" by simp
  note pieces = createPieceOf_props [OF assms(3)]
  show ?thesis
  proof (cases "a_isBig a")
    case True
    let ?w = ServerGameData_width and ?h = ServerGameData_height
    let ?p1 = "fst (ServerAsteroid_createPieceOf ch k ?w ?h a)"
    let ?p2 = "fst (ServerAsteroid_createPieceOf ch (k + 17) ?w ?h a)"
    let ?p3 = "fst (ServerAsteroid_createPieceOf ch (k + 17 + 17) ?w ?h a)"
    have res: "ServerGameData_breakAsteroid ch a (gd, k)
        = (gd\<lparr>asteroids := remove1 a (asteroids gd) @ [?p1, ?p2, ?p3],
               curBigAsteroidsCount := curBigAsteroidsCount gd - 1\<rparr>, k + 17 + 17 + 17)"
      using True i createPieceOf_slots
      by (simp add: ServerGameData_breakAsteroid_def ServerGameData_removeAsteroidById_def Let_def
          case_prod_beta)
    have small: "\<forall>p\<in>{?p1, ?p2, ?p3}. \<not> a_isBig p \<and> \<not> a_needNewTarget p
                         \<and> \<bar>a_x p - a_x a\<bar> \<le> 20 \<and> \<bar>a_y p - a_y a\<bar> \<le> 20"
      using pieces createPieceOf_target by simp
    have ids: "map a_id [?p1, ?p2, ?p3] = [uuid ch k, uuid ch (k + 17), uuid ch (k + 17 + 17)]"
      by (simp add: createPieceOf_id(1))
    have slots: "\<exists>j1 j2 j3. k \<le> j1 \<and> j1 < j2 \<and> j2 < j3 \<and> j3 < k + 17 + 17 + 17
                         \<and> map a_id [?p1, ?p2, ?p3] = [uuid ch j1, uuid ch j2, uuid ch j3]"
      using ids by (intro exI [of _ k] exI [of _ "k + 17"] exI [of _ "k + 17 + 17"]) simp
    have fresh: "inj (uuid ch) \<and> (\<forall>v\<in>set (asteroids gd). \<exists>j<k. a_id v = uuid ch j)
                   \<longrightarrow> distinct (map a_id (remove1 a (asteroids gd) @ [?p1, ?p2, ?p3]))
                       \<and> (\<forall>p\<in>{?p1, ?p2, ?p3}. a_id p \<notin> a_id ` set (asteroids gd))"
    proof (intro impI, elim conjE)
      assume inj: "inj (uuid ch)" and old: "\<forall>v\<in>set (asteroids gd). \<exists>j<k. a_id v = uuid ch j"
      from fresh_ids [OF inj old assms(2) _ _ _ ids]
      show "distinct (map a_id (remove1 a (asteroids gd) @ [?p1, ?p2, ?p3]))
                       \<and> (\<forall>p\<in>{?p1, ?p2, ?p3}. a_id p \<notin> a_id ` set (asteroids gd))"
        by simp
    qed
    from True gone small slots fresh show ?thesis
      unfolding res by (simp only: Let_def prod.case) (simp del: distinct_append map_append)
  next
    case False
    with i gone show ?thesis
      by (simp add: ServerGameData_breakAsteroid_def ServerGameData_removeAsteroidById_def)
  qed
qed

theorem breakAsteroid_splits_witness:
  "length (asteroids (fst (ServerGameData_breakAsteroid example_chance example_asteroid (example_gameData, 18)))) = 3
   \<and> distinct (map a_id (asteroids (fst (ServerGameData_breakAsteroid example_chance example_asteroid (example_gameData, 18)))))
   \<and> a_id example_asteroid \<notin> a_id ` set (asteroids (fst (ServerGameData_breakAsteroid example_chance example_asteroid (example_gameData, 18))))
   \<and> curBigAsteroidsCount (fst (ServerGameData_breakAsteroid example_chance example_asteroid (example_gameData, 18))) = 0"
proof -
  obtain gd' k' where r: "ServerGameData_breakAsteroid example_chance example_asteroid (example_gameData, 18) = (gd', k')"
    by (cases "ServerGameData_breakAsteroid example_chance example_asteroid (example_gameData, 18)")
  have old: "\<forall>v\<in>set (asteroids example_gameData). \<exists>j<18. a_id v = uuid example_chance j"
    using example_asteroid_id by (auto simp: example_gameData_def intro: exI [of _ 0])
  have a: "example_asteroid \<in> set (asteroids example_gameData)"
    "distinct (map a_id (asteroids example_gameData))"
    "remove1 example_asteroid (asteroids example_gameData) = []"
    "curBigAsteroidsCount example_gameData = 1"
    "a_id ` set (asteroids example_gameData) = {a_id example_asteroid}"
    by (simp_all add: example_gameData_def)
  from breakAsteroid_splits [OF a(1,2) example_chance_random, of 18]
    example_asteroid_big example_chance_uuid old
  obtain p1 p2 p3 where "asteroids gd' = [p1, p2, p3]" "distinct (map a_id (asteroids gd'))"
    "\<forall>p\<in>{p1, p2, p3}. a_id p \<noteq> a_id example_asteroid" "curBigAsteroidsCount gd' = 0"
    unfolding r a by (simp only: Let_def prod.case) auto
  then show ?thesis unfolding r by auto
qed

subsection \<open>The collision predicates and the edge check\<close>

text \<open>
  Claim C6. A ship's \<open>isCollisionTarget\<close> holds exactly for a projectile whose firer
  id is not the ship's id and whose recycle flag is not set, and for any asteroid; an
  asteroid's holds exactly for a projectile whose recycle flag is not set; a projectile's
  \<open>checkCollidedWith\<close> leaves the state as it is, whatever the detection would report,
  and a projectile has no collision target.
\<close>

theorem isCollisionTarget_cases:
  "(ServerPlayer_isCollisionTarget s other \<longleftrightarrow>
      (\<exists>b. other = Bullet b \<and> b_firerId b \<noteq> Some (p_id s) \<and> \<not> b_needsToBeRecycled b)
      \<or> (\<exists>a. other = Asteroid a))
   \<and> (ServerAsteroid_isCollisionTarget a other \<longleftrightarrow>
      (\<exists>b. other = Bullet b \<and> \<not> b_needsToBeRecycled b))
   \<and> ServerBullet_checkCollidedWith hits ch bullet othersArray st = st
   \<and> \<not> ServerBullet_isCollisionTarget bullet other"
  by (cases other)
     (simp_all add: ServerPlayer_isCollisionTarget_def ServerAsteroid_isCollisionTarget_def
        ServerBullet_checkCollidedWith_def ServerBullet_isCollisionTarget_def)

text \<open>
  Claim C9. The edge check of a ship, in a world of non-negative width and height, with
  \<open>r\<close> the ship size: an \<open>x\<close> beyond \<open>width + r\<close> becomes \<open>- r\<close>, an \<open>x\<close>
  below \<open>- r\<close> becomes \<open>width + r\<close>, likewise for \<open>y\<close> and the height; a
  coordinate within the bounds is kept, and nothing but the position changes.
\<close>

theorem checkEdges_wraps:
  assumes "0 \<le> width" and "0 \<le> height"
  shows "(let r = ServerPlayer_size; q = ServerPlayer_checkEdges width height p
          in (p_x p > width + r \<longrightarrow> p_x q = - r)
           \<and> (p_x p < - r \<longrightarrow> p_x q = width + r)
           \<and> (p_y p > height + r \<longrightarrow> p_y q = - r)
           \<and> (p_y p < - r \<longrightarrow> p_y q = height + r)
           \<and> (- r \<le> p_x p \<and> p_x p \<le> width + r \<longrightarrow> p_x q = p_x p)
           \<and> (- r \<le> p_y p \<and> p_y p \<le> height + r \<longrightarrow> p_y q = p_y p)
           \<and> q = p\<lparr>p_x := p_x q, p_y := p_y q\<rparr>)"
  using assms by (auto simp: ServerPlayer_checkEdges_def ServerPlayer_size_def Let_def)

theorem checkEdges_wraps_witness:
  "p_x (ServerPlayer_checkEdges 4000 4000 (example_player\<lparr>p_x := 4016, p_y := - 16\<rparr>)) = - 15
   \<and> p_y (ServerPlayer_checkEdges 4000 4000 (example_player\<lparr>p_x := 4016, p_y := - 16\<rparr>)) = 4015
   \<and> p_x (ServerPlayer_checkEdges 4000 4000 example_player) = 2000"
  using checkEdges_wraps [of 4000 4000 "example_player\<lparr>p_x := 4016, p_y := - 16\<rparr>"]
        checkEdges_wraps [of 4000 4000 example_player]
  by (simp add: ServerPlayer_size_def Let_def example_player_def new_ServerPlayer_def)

subsection \<open>The counter of big asteroids is kept\<close>

lemma filter_splice1:
  "i < length xs \<Longrightarrow>
   length (filter P xs) = length (filter P (splice1 i xs)) + (if P (xs ! i) then 1 else 0)"
  by (subst (1) id_take_nth_drop [of i xs]) (simp_all add: splice1_def)

lemma filter_update_same:
  "i < length xs \<Longrightarrow> P y = P (xs ! i) \<Longrightarrow> length (filter P (xs[i := y])) = length (filter P xs)"
  by (subst (2) id_take_nth_drop [of i xs]) (simp_all add: upd_conv_take_nth_drop)

lemma createPieceOf_small: "\<not> a_isBig (fst (ServerAsteroid_createPieceOf ch k w h big))"
  by (simp add: ServerAsteroid_createPieceOf_def new_ServerAsteroid_def Let_def split: prod.splits)

lemma new_ServerAsteroid_isBig: "a_isBig (fst (new_ServerAsteroid ch k w h big)) = big"
  by (simp add: new_ServerAsteroid_def Let_def split: prod.splits)

lemma breakAsteroid_counter:
  assumes "counter_inv gd"
  shows "counter_inv (fst (ServerGameData_breakAsteroid ch a (gd, k)))"
proof (cases "findIndex (\<lambda>v. a_id a = a_id v) (asteroids gd)")
  case None
  with assms show ?thesis
    by (simp add: ServerGameData_breakAsteroid_def ServerGameData_removeAsteroidById_def)
next
  case (Some i)
  then have i: "i < length (asteroids gd)" by (simp add: findIndex_Some)
  from filter_splice1 [OF i, of a_isBig] assms Some createPieceOf_small show ?thesis
    by (auto simp: ServerGameData_breakAsteroid_def ServerGameData_removeAsteroidById_def
        counter_inv_def bigCount_def Let_def split: prod.splits)
       (metis fst_conv)+
qed

lemma breakAsteroid_frame:
  "players (fst (ServerGameData_breakAsteroid ch a (gd, k))) = players gd"
  "bulletHouse (fst (ServerGameData_breakAsteroid ch a (gd, k))) = bulletHouse gd"
  by (simp_all add: ServerGameData_breakAsteroid_def ServerGameData_removeAsteroidById_def Let_def
      split: option.splits prod.splits)

lemma counter_inv_frame:
  "counter_inv (gd\<lparr>players := ps\<rparr>) = counter_inv gd"
  "counter_inv (gd\<lparr>bulletHouse := bh\<rparr>) = counter_inv gd"
  "counter_inv (ServerGameData_recycleBulletById ident gd) = counter_inv gd"
  "counter_inv (ServerGameData_recycleBulletsByFirerId firerId gd) = counter_inv gd"
  "counter_inv (snd (ServerGameData_removePlayerById ident gd)) = counter_inv gd"
  by (simp_all add: counter_inv_def bigCount_def ServerGameData_recycleBulletById_def
      ServerGameData_recycleBulletsByFirerId_def ServerGameData_removePlayerById_def
      split: option.splits)

lemma notifyKilled_frame:
  "gameData (Server_notifyKilled event kp st) = gameData st"
  "slot (Server_notifyKilled event kp st) = slot st"
  by (simp_all add: Server_notifyKilled_def split: option.splits)

lemma asteroidKilledPlayer_counter:
  "counter_inv (gameData st) \<Longrightarrow> counter_inv (gameData (Server_asteroidKilledPlayer ch a p st))"
  by (simp add: Server_asteroidKilledPlayer_def Let_def case_prod_beta notifyKilled_frame
      breakAsteroid_counter counter_inv_frame split: option.splits)

lemma bulletKilledAsteroid_counter:
  "counter_inv (gameData st) \<Longrightarrow> counter_inv (gameData (Server_bulletKilledAsteroid ch b a st))"
  by (simp add: Server_bulletKilledAsteroid_def Let_def case_prod_beta
      breakAsteroid_counter counter_inv_frame split: option.splits)

lemma bulletKilledPlayer_counter:
  "counter_inv (gameData st) \<Longrightarrow> counter_inv (gameData (Server_bulletKilledPlayer ch b p st))"
  by (simp add: Server_bulletKilledPlayer_def Let_def case_prod_beta notifyKilled_frame
      counter_inv_frame split: option.splits)

lemma processCollidedWith_counter:
  "counter_inv (gameData st) \<Longrightarrow>
   counter_inv (gameData (CollidingObject_processCollidedWith ch obj other st))"
  by (simp add: CollidingObject_processCollidedWith_def ServerPlayer_processCollidedWith_def
      ServerAsteroid_processCollidedWith_def ServerBullet_processCollidedWith_def
      asteroidKilledPlayer_counter bulletKilledAsteroid_counter bulletKilledPlayer_counter
      split: CollidingObject.splits)

lemma fold_processCollidedWith_counter:
  "counter_inv (gameData st) \<Longrightarrow>
   counter_inv (gameData (fold (CollidingObject_processCollidedWith ch obj) others st))"
  by (induction others arbitrary: st) (simp_all add: processCollidedWith_counter)

lemma checkCollidedWith_counter:
  "counter_inv (gameData st) \<Longrightarrow>
   counter_inv (gameData (Utils_checkCollidedWith hits ch obj othersArray st))"
  by (simp add: Utils_checkCollidedWith_def fold_processCollidedWith_counter)

lemma asteroidsCheck_counter:
  "ServerGameData_asteroidsCheck hits ch i st = Some st' \<Longrightarrow> counter_inv (gameData st) \<Longrightarrow>
   counter_inv (gameData st')"
proof (induction i arbitrary: st)
  case 0
  then show ?case by simp
next
  case (Suc i)
  then show ?case
    by (auto simp: ServerAsteroid_checkCollidedWith_def checkCollidedWith_counter split: if_splits)
qed

lemma playersCheck_counter:
  "counter_inv (gameData st) \<Longrightarrow>
   counter_inv (gameData (ServerGameData_playersCheck hits ch keys st))"
proof (induction keys arbitrary: st)
  case Nil
  then show ?case by simp
next
  case (Cons key keys)
  then show ?case
    by (auto simp: ServerPlayer_checkCollidedWith_def checkCollidedWith_counter split: option.splits)
qed

lemma pushBigAsteroids_counter:
  "counter_inv gd \<Longrightarrow> counter_inv (fst (ServerGameData_pushBigAsteroids ch n (gd, k)))"
proof (induction n arbitrary: gd k)
  case 0
  then show ?case by simp
next
  case (Suc n)
  have "counter_inv (gd\<lparr>asteroids := asteroids gd @ [fst (new_ServerAsteroid ch k ServerGameData_width ServerGameData_height True)],
               curBigAsteroidsCount := curBigAsteroidsCount gd + 1\<rparr>)"
    using Suc.prems by (simp add: counter_inv_def bigCount_def new_ServerAsteroid_isBig)
  from Suc.IH [OF this] show ?case
    by (simp add: case_prod_beta Let_def)
qed

lemma pushBigAsteroids_count:
  "curBigAsteroidsCount (fst (ServerGameData_pushBigAsteroids ch n (gd, k))) = curBigAsteroidsCount gd + int n"
  "players (fst (ServerGameData_pushBigAsteroids ch n (gd, k))) = players gd"
  "bulletHouse (fst (ServerGameData_pushBigAsteroids ch n (gd, k))) = bulletHouse gd"
  by (induction n arbitrary: gd k) (simp_all add: case_prod_beta Let_def)

lemma pushBigAsteroids_asteroids:
  "\<exists>new. asteroids (fst (ServerGameData_pushBigAsteroids ch n (gd, k))) = asteroids gd @ new
         \<and> length new = n \<and> (\<forall>a\<in>set new. a_isBig a)"
proof (induction n arbitrary: gd k)
  case 0
  then show ?case by simp
next
  case (Suc n)
  let ?a = "fst (new_ServerAsteroid ch k ServerGameData_width ServerGameData_height True)"
  let ?k = "snd (new_ServerAsteroid ch k ServerGameData_width ServerGameData_height True)"
  let ?gd = "gd\<lparr>asteroids := asteroids gd @ [?a], curBigAsteroidsCount := curBigAsteroidsCount gd + 1\<rparr>"
  from Suc.IH [of ?gd ?k] obtain new where
    new: "asteroids (fst (ServerGameData_pushBigAsteroids ch n (?gd, ?k))) = asteroids ?gd @ new"
      "length new = n" "\<forall>a\<in>set new. a_isBig a"
    by blast
  have "asteroids (fst (ServerGameData_pushBigAsteroids ch (Suc n) (gd, k))) = asteroids gd @ (?a # new)"
    using new(1) by (simp add: case_prod_beta Let_def)
  moreover have "length (?a # new) = Suc n" using new(2) by simp
  moreover have "\<forall>a\<in>set (?a # new). a_isBig a"
    using new(3) by (simp add: new_ServerAsteroid_isBig)
  ultimately show ?case by blast
qed

lemma a_isBig_update: "a_isBig (ServerAsteroid_update w h a) = a_isBig a"
  by (simp add: ServerAsteroid_update_def Let_def)

lemma a_isBig_setTarget: "a_isBig (ServerAsteroid_setTarget ch k x y a) = a_isBig a"
  by (simp add: ServerAsteroid_setTarget_def Let_def)

lemma a_isBig_retarget: "a_isBig (ServerGameData_retarget ch k ps a) = a_isBig a"
  by (simp add: ServerGameData_retarget_def Let_def a_isBig_setTarget)

lemma updateAsteroids_counter:
  "counter_inv gd \<Longrightarrow> counter_inv (fst (ServerGameData_updateAsteroids ch i (gd, k)))"
proof (induction ch i "(gd, k)" arbitrary: gd k rule: ServerGameData_updateAsteroids.induct)
  case (1 ch i gd k)
  let ?a = "ServerAsteroid_update ServerGameData_width ServerGameData_height (asteroids gd ! i)"
  show ?case
  proof (cases "i < length (asteroids gd)")
    case False
    with "1.prems" show ?thesis by (subst ServerGameData_updateAsteroids.simps) simp
  next
    case len: True
    show ?thesis
    proof (cases "a_needNewTarget ?a")
      case False
      have "counter_inv (gd\<lparr>asteroids := (asteroids gd)[i := ?a]\<rparr>)"
        using "1.prems" len by (simp add: counter_inv_def bigCount_def filter_update_same a_isBig_update)
      from "1.hyps"(3) [OF len refl False this] len False show ?thesis
        by (subst ServerGameData_updateAsteroids.simps) (simp add: Let_def)
    next
      case need: True
      show ?thesis
      proof (cases "a_isBig ?a")
        case True
        have "counter_inv (gd\<lparr>asteroids := (asteroids gd)[i := ServerGameData_retarget ch k (players gd) ?a]\<rparr>)"
          using "1.prems" len
          by (simp add: counter_inv_def bigCount_def filter_update_same a_isBig_update a_isBig_retarget)
        from "1.hyps"(1) [OF len refl need True this] len need True show ?thesis
          by (subst ServerGameData_updateAsteroids.simps) (simp add: Let_def)
      next
        case False
        then have small: "\<not> a_isBig (asteroids gd ! i)" by (simp add: a_isBig_update)
        have "counter_inv (gd\<lparr>asteroids := splice1 i (asteroids gd)\<rparr>)"
          using "1.prems" filter_splice1 [OF len, of a_isBig] small
          by (simp add: counter_inv_def bigCount_def)
        from "1.hyps"(2) [OF len refl need False this] len need False show ?thesis
          by (subst ServerGameData_updateAsteroids.simps) (simp add: Let_def)
      qed
    qed
  qed
qed

lemma updateAsteroids_frame:
  "players (fst (ServerGameData_updateAsteroids ch i (gd, k))) = players gd
   \<and> bulletHouse (fst (ServerGameData_updateAsteroids ch i (gd, k))) = bulletHouse gd"
proof (induction ch i "(gd, k)" arbitrary: gd k rule: ServerGameData_updateAsteroids.induct)
  case (1 ch i gd k)
  show ?case
    using "1.hyps"
    by (subst (1 2) ServerGameData_updateAsteroids.simps) (simp add: Let_def)
qed

lemma topUp_props:
  "players (fst (ServerGameData_topUp ch (gd, k))) = players gd"
  "bulletHouse (fst (ServerGameData_topUp ch (gd, k))) = bulletHouse gd"
  "curBigAsteroidsCount (fst (ServerGameData_topUp ch (gd, k)))
     = max (curBigAsteroidsCount gd) (max 7 (3 * int (length (players gd))))"
  "counter_inv gd \<Longrightarrow> counter_inv (fst (ServerGameData_topUp ch (gd, k)))"
  by (auto simp: ServerGameData_topUp_def Let_def pushBigAsteroids_count pushBigAsteroids_counter
      ServerGameData_minBigAsteroidCount_def ServerGameData_bigAsteroidCountMultiplesOfPlayer_def
      mult.commute)

lemma topUp_exact:
  "\<exists>new. asteroids (fst (ServerGameData_topUp ch (gd, k))) = asteroids gd @ new
         \<and> (\<forall>a\<in>set new. a_isBig a)
         \<and> int (length new)
             = max 0 (max 7 (3 * int (length (players gd))) - curBigAsteroidsCount gd)"
proof (cases "curBigAsteroidsCount gd < max 7 (3 * int (length (players gd)))")
  case True
  let ?n = "nat (max 7 (3 * int (length (players gd))) - curBigAsteroidsCount gd)"
  from pushBigAsteroids_asteroids [of ch ?n gd k] obtain new where
    "asteroids (fst (ServerGameData_pushBigAsteroids ch ?n (gd, k))) = asteroids gd @ new"
    "length new = ?n" "\<forall>a\<in>set new. a_isBig a"
    by blast
  with True show ?thesis
    by (simp add: ServerGameData_topUp_def Let_def ServerGameData_minBigAsteroidCount_def
        ServerGameData_bigAsteroidCountMultiplesOfPlayer_def mult.commute)
next
  case False
  then show ?thesis
    by (simp add: ServerGameData_topUp_def Let_def ServerGameData_minBigAsteroidCount_def
        ServerGameData_bigAsteroidCountMultiplesOfPlayer_def mult.commute)
qed

lemma update_stages:
  "ServerGameData_update hits ch st =
     (case ServerGameData_asteroidsCheck hits ch (length (asteroids (gameData (tick_moved ch st))))
             (tick_moved ch st) of
        None \<Rightarrow> None
      | Some st2 \<Rightarrow>
          (let st3 = ServerGameData_playersCheck hits ch (map fst (players (gameData st2))) st2
           in Some (st3\<lparr>gameData := fst (ServerGameData_topUp ch (gameData st3, slot st3)),
                       slot := snd (ServerGameData_topUp ch (gameData st3, slot st3))\<rparr>)))"
  by (simp add: ServerGameData_update_def tick_moved_def Let_def case_prod_beta split: option.splits)

lemma tick_moved_counter:
  "counter_inv (gameData st) \<Longrightarrow> counter_inv (gameData (tick_moved ch st))"
  by (simp add: tick_moved_def Let_def case_prod_beta updateAsteroids_counter counter_inv_frame)

lemma update_counter:
  assumes "ServerGameData_update hits ch st = Some st'" and "counter_inv (gameData st)"
  shows "counter_inv (gameData st')"
    and "max 7 (3 * int (length (players (gameData st')))) \<le> curBigAsteroidsCount (gameData st')"
proof -
  from assms(1) obtain st2 where
    st2: "ServerGameData_asteroidsCheck hits ch (length (asteroids (gameData (tick_moved ch st))))
            (tick_moved ch st) = Some st2"
    by (auto simp: update_stages split: option.splits)
  define st3 where "st3 = ServerGameData_playersCheck hits ch (map fst (players (gameData st2))) st2"
  from assms(1) st2 have st': "st' = st3\<lparr>gameData := fst (ServerGameData_topUp ch (gameData st3, slot st3)),
                       slot := snd (ServerGameData_topUp ch (gameData st3, slot st3))\<rparr>"
    by (simp add: update_stages st3_def Let_def)
  from assms(2) have "counter_inv (gameData (tick_moved ch st))" by (rule tick_moved_counter)
  with st2 have "counter_inv (gameData st2)" by (rule asteroidsCheck_counter)
  then have "counter_inv (gameData st3)" unfolding st3_def by (rule playersCheck_counter)
  then show "counter_inv (gameData st')" by (simp add: st' topUp_props)
  show "max 7 (3 * int (length (players (gameData st')))) \<le> curBigAsteroidsCount (gameData st')"
    by (simp add: st' topUp_props)
qed

lemma new_ServerGameData_counter: "counter_inv (fst (new_ServerGameData ch k))"
  unfolding new_ServerGameData_def
  by (rule pushBigAsteroids_counter) (simp add: counter_inv_def bigCount_def)

lemma onDisconnectedEvent_counter:
  "counter_inv (gameData st) \<Longrightarrow> counter_inv (gameData (Server_onDisconnectedEvent sid st))"
  by (simp add: Server_onDisconnectedEvent_def Let_def counter_inv_frame split: option.splits)

lemma onTryLoggingInEvent_counter:
  "counter_inv (gameData st) \<Longrightarrow> counter_inv (gameData (Server_onTryLoggingInEvent ch sid name color st))"
  by (simp add: Server_onTryLoggingInEvent_def ServerGameData_addPlayer_def Let_def counter_inv_frame
      split: option.splits)

lemma onPlayerInputEvent_counter:
  "counter_inv (gameData st) \<Longrightarrow> counter_inv (gameData (Server_onPlayerInputEvent sid input st))"
  by (simp add: Server_onPlayerInputEvent_def counter_inv_frame split: option.splits)

lemma reachable_counter: "reachable hits ch st \<Longrightarrow> counter_inv (gameData st)"
proof (induction rule: reachable.induct)
  case start
  show ?case by (simp add: new_Server_def case_prod_beta new_ServerGameData_counter)
next
  case (tick st st')
  then obtain st1 where "ServerGameData_update hits ch st = Some st1"
    and "st' = st1\<lparr>outbox := outbox st1 @ map (\<lambda>socket. GameDataEvent (s_id socket)) (connectedSockets st1)\<rparr>"
    by (auto simp: Server_gameUpdateLoop_def split: option.splits)
  with tick.IH show ?case by (simp add: update_counter(1))
next
  case (connected st sid)
  then show ?case by (simp add: Server_onConnectedEvent_def)
next
  case (disconnected st sid)
  then show ?case by (simp add: onDisconnectedEvent_counter)
next
  case (loggingIn st sid name color)
  then show ?case by (simp add: onTryLoggingInEvent_counter)
next
  case (playerInput st sid playerInput)
  then show ?case by (simp add: onPlayerInputEvent_counter)
qed

text \<open>A tick in which the detection reports no collision returns.\<close>

lemma asteroidsCheck_no_hits:
  "i \<le> length (asteroids (gameData st)) \<Longrightarrow>
   ServerGameData_asteroidsCheck example_hits ch i st = Some st"
  by (induction i)
     (simp_all add: ServerAsteroid_checkCollidedWith_def Utils_checkCollidedWith_def example_hits_def)

lemma update_no_hits_returns: "\<exists>st'. ServerGameData_update example_hits ch st = Some st'"
  by (simp add: update_stages asteroidsCheck_no_hits Let_def)

text \<open>
  Claim C1. After a tick of \<open>update\<close> that returns, started in a state the server
  reaches, the number of big asteroids in the world is at least the maximum of 7 and three
  times the number of ships in the collection. The top-up step appends only big asteroids,
  and as many as the floor exceeds the counter (none when it does not).
\<close>

theorem population_floor:
  assumes "reachable hits ch st" and "ServerGameData_update hits ch st = Some st'"
  shows "max 7 (3 * int (length (players (gameData st'))))
           \<le> int (length (filter a_isBig (asteroids (gameData st'))))
       \<and> (\<exists>new. asteroids (fst (ServerGameData_topUp ch (gd, k))) = asteroids gd @ new
              \<and> (\<forall>a\<in>set new. a_isBig a)
              \<and> int (length new)
                  = max 0 (max 7 (3 * int (length (players gd))) - curBigAsteroidsCount gd))"
proof -
  from assms(1) have "counter_inv (gameData st)" by (rule reachable_counter)
  from update_counter [OF assms(2) this]
  have "max 7 (3 * int (length (players (gameData st'))))
           \<le> int (length (filter a_isBig (asteroids (gameData st'))))"
    by (simp add: counter_inv_def bigCount_def)
  with topUp_exact [of ch gd k] show ?thesis by simp
qed

theorem population_floor_witness:
  "\<exists>st'. ServerGameData_update example_hits example_chance (new_Server example_chance) = Some st'
      \<and> 7 \<le> int (length (filter a_isBig (asteroids (gameData st'))))"
proof -
  from update_no_hits_returns obtain st' where
    st': "ServerGameData_update example_hits example_chance (new_Server example_chance) = Some st'"
    by blast
  from population_floor [OF reachable.start st']
  have "7 \<le> int (length (filter a_isBig (asteroids (gameData st'))))" by simp
  with st' show ?thesis by blast
qed

text \<open>
  Claim C10. In every state the server reaches, \<open>curBigAsteroidsCount\<close> is the number
  of asteroids of the collection with \<open>isBig\<close> set. The constructor establishes this,
  and the asteroid loop of a tick (which removes small asteroids), \<open>breakAsteroid\<close> and
  the top-up keep it.
\<close>

theorem counter_is_big_count:
  "(reachable hits ch st \<longrightarrow>
      curBigAsteroidsCount (gameData st) = int (length (filter a_isBig (asteroids (gameData st)))))
   \<and> counter_inv (fst (new_ServerGameData ch k))
   \<and> (counter_inv gd \<longrightarrow>
        counter_inv (fst (ServerGameData_updateAsteroids ch i (gd, k)))
        \<and> counter_inv (fst (ServerGameData_breakAsteroid ch a (gd, k)))
        \<and> counter_inv (fst (ServerGameData_topUp ch (gd, k))))"
  using reachable_counter [of hits ch st]
  by (simp add: counter_inv_def [of "gameData st"] bigCount_def new_ServerGameData_counter
      updateAsteroids_counter breakAsteroid_counter topUp_props)

theorem counter_is_big_count_witness:
  "curBigAsteroidsCount (gameData (new_Server example_chance))
     = int (length (filter a_isBig (asteroids (gameData (new_Server example_chance)))))
   \<and> counter_inv (fst (ServerGameData_breakAsteroid example_chance example_asteroid (example_gameData, 18)))"
proof -
  have "counter_inv example_gameData"
    by (simp add: counter_inv_def bigCount_def example_gameData_def example_asteroid_big)
  with counter_is_big_count [of example_hits example_chance "new_Server example_chance" 0
      example_gameData 0 example_asteroid] counter_is_big_count [of example_hits example_chance
      "new_Server example_chance" 18 example_gameData 0 example_asteroid] reachable.start
  show ?thesis by blast
qed

subsection \<open>A projectile kills a ship\<close>


lemma Map_delete_absent: "Map_get k m = None \<Longrightarrow> Map_delete k m = m"
  by (induction m) (auto simp: Map_get_def Map_delete_def)

lemma Map_get_modify: "Map_get k (Map_modify j f m) = (if k = j then map_option f (Map_get k m) else Map_get k m)"
  by (induction m) (auto simp: Map_get_def Map_modify_def)

lemma Map_get_delete_other: "v \<noteq> key \<Longrightarrow> Map_get key (Map_delete v m) = Map_get key m"
  by (induction m) (auto simp: Map_get_def Map_delete_def)

lemma bullets_recycleById_firer:
  "\<forall>b\<in>set (bullets bh). P b \<Longrightarrow> \<forall>b\<in>set (bullets (BulletHouse_recycleBulletById ident bh)). P b"
  by (auto simp: BulletHouse_recycleBulletById_def splice1_def split: option.splits
      dest: in_set_takeD in_set_dropD)









lemma first_of_absent: "\<forall>x\<in>set xs. \<not> P x \<Longrightarrow> first_of P xs = []"
  by (simp add: first_of_def)



















subsection \<open>Invincible ships\<close>

lemma checkEdges_fields:
  "p_id (ServerPlayer_checkEdges w h p) = p_id p"
  "p_invincibleCountdown (ServerPlayer_checkEdges w h p) = p_invincibleCountdown p"
  by (simp_all add: ServerPlayer_checkEdges_def Let_def)

lemma updateBoostingForce_fields:
  "p_id (ServerPlayer_updateBoostingForce b p) = p_id p"
  "p_invincibleCountdown (ServerPlayer_updateBoostingForce b p) = p_invincibleCountdown p"
  by (simp_all add: ServerPlayer_updateBoostingForce_def)

lemma move_fields:
  "p_id (ServerPlayer_move w h p) = p_id p"
  "p_invincibleCountdown (ServerPlayer_move w h p) = p_invincibleCountdown p"
  by (simp_all add: ServerPlayer_move_def Let_def checkEdges_fields updateBoostingForce_fields)

lemma fire_fields:
  "p_id (fst (ServerPlayer_fire ch k (p, bh))) = p_id p"
  "p_invincibleCountdown (fst (ServerPlayer_fire ch k (p, bh))) = p_invincibleCountdown p"
  by (simp_all add: ServerPlayer_fire_def Let_def)

lemma blink_fields:
  "p_id (ServerPlayer_blink ch k p) = p_id p"
  "p_invincibleCountdown (ServerPlayer_blink ch k p) = p_invincibleCountdown p"
  by (simp_all add: ServerPlayer_blink_def Let_def)

lemma ServerPlayer_update_fields:
  "p_id (fst (ServerPlayer_update ch k w h (p, bh))) = p_id p"
  "p_invincibleCountdown (fst (ServerPlayer_update ch k w h (p, bh)))
     = (if p_invincibleCountdown p > 0 then p_invincibleCountdown p - 1 else p_invincibleCountdown p)"
  by (simp_all add: ServerPlayer_update_def Let_def case_prod_beta blink_fields fire_fields move_fields)

lemma wf_players_delete: "wf_players ps \<Longrightarrow> wf_players (Map_delete v ps)"
  by (auto simp: wf_players_def Map_delete_def distinct_map_filter)

lemma Map_modify_keys: "map fst (Map_modify j f m) = map fst m"
  by (induction m) (auto simp: Map_modify_def)

lemma Map_modify_entries:
  "e \<in> set (Map_modify j f m) \<Longrightarrow> (fst e, snd e) \<in> set m \<or> (\<exists>v. (fst e, v) \<in> set m \<and> snd e = f v)"
  by (induction m) (auto simp: Map_modify_def split: if_splits)

lemma wf_players_modify:
  assumes "\<And>p. p_id (f p) = p_id p" and "wf_players ps"
  shows "wf_players (Map_modify j f ps)"
proof -
  have "p_id (snd e) = fst e" if "e \<in> set (Map_modify j f ps)" for e
    using Map_modify_entries [OF that] assms by (auto simp: wf_players_def)
  with assms(2) show ?thesis by (simp add: wf_players_def Map_modify_keys)
qed

lemma Map_set_keys: "set (map fst (Map_set k v m)) = insert k (set (map fst m))"
  by (induction m) auto

lemma Map_set_distinct: "distinct (map fst m) \<Longrightarrow> distinct (map fst (Map_set k v m))"
proof (induction m)
  case Nil
  then show ?case by simp
next
  case (Cons e es)
  then show ?case
    using Map_set_keys [of k v es] by (auto simp del: set_map)
qed

lemma Map_set_entries: "e \<in> set (Map_set k v m) \<Longrightarrow> e = (k, v) \<or> e \<in> set m"
  by (induction m) (auto split: if_splits)

lemma wf_players_set:
  assumes "wf_players ps" and "p_id p = k"
  shows "wf_players (Map_set k p ps)"
proof -
  have "p_id (snd e) = fst e" if "e \<in> set (Map_set k p ps)" for e
    using Map_set_entries [OF that] assms by (auto simp: wf_players_def)
  with assms(1) show ?thesis by (simp add: wf_players_def Map_set_distinct)
qed

lemma shielded_delete: "shielded key c ps \<Longrightarrow> v \<noteq> key \<Longrightarrow> shielded key c (Map_delete v ps)"
  by (simp add: shielded_def Map_get_delete_other)

lemma shielded_modify:
  "(\<And>p. p_invincibleCountdown (f p) = p_invincibleCountdown p) \<Longrightarrow> shielded key c ps \<Longrightarrow>
   shielded key c (Map_modify j f ps)"
  by (auto simp: shielded_def Map_get_modify)

lemma points_fields:
  "p_id (ServerPlayer_increaseAsteroidPoint p) = p_id p"
  "p_id (ServerPlayer_increaseKillingPoint p) = p_id p"
  "p_invincibleCountdown (ServerPlayer_increaseAsteroidPoint p) = p_invincibleCountdown p"
  "p_invincibleCountdown (ServerPlayer_increaseKillingPoint p) = p_invincibleCountdown p"
  by (simp_all add: ServerPlayer_increaseAsteroidPoint_def ServerPlayer_increaseKillingPoint_def)

lemma asteroidKilledPlayer_players:
  "players (gameData (Server_asteroidKilledPlayer ch a p st)) = Map_delete (p_id p) (players (gameData st))"
  by (simp add: Server_asteroidKilledPlayer_def Let_def case_prod_beta breakAsteroid_frame
      notifyKilled_frame ServerGameData_removePlayerById_def ServerGameData_recycleBulletsByFirerId_def
      Map_delete_absent split: option.splits)

lemma bulletKilledAsteroid_players:
  "players (gameData (Server_bulletKilledAsteroid ch b a st)) = players (gameData st)
   \<or> (\<exists>j. players (gameData (Server_bulletKilledAsteroid ch b a st))
          = Map_modify j ServerPlayer_increaseAsteroidPoint (players (gameData st)))"
  by (simp add: Server_bulletKilledAsteroid_def Let_def case_prod_beta breakAsteroid_frame
      ServerGameData_recycleBulletById_def split: option.splits) blast

lemma bulletKilledPlayer_players:
  "players (gameData (Server_bulletKilledPlayer ch b p st)) = players (gameData st)
   \<or> (\<exists>j. players (gameData (Server_bulletKilledPlayer ch b p st))
          = Map_modify j ServerPlayer_increaseKillingPoint (Map_delete (p_id p) (players (gameData st))))"
  by (simp add: Server_bulletKilledPlayer_def Let_def case_prod_beta notifyKilled_frame
      ServerGameData_removePlayerById_def ServerGameData_recycleBulletsByFirerId_def
      ServerGameData_recycleBulletById_def split: option.splits) blast

lemma asteroidKilledPlayer_guarded:
  "guarded key c st \<Longrightarrow> p_id p \<noteq> key \<Longrightarrow> guarded key c (Server_asteroidKilledPlayer ch a p st)"
  by (simp add: guarded_def asteroidKilledPlayer_players wf_players_delete shielded_delete)

lemma bulletKilledAsteroid_guarded:
  "guarded key c st \<Longrightarrow> guarded key c (Server_bulletKilledAsteroid ch b a st)"
  using bulletKilledAsteroid_players [of ch b a st]
  by (auto simp: guarded_def wf_players_modify shielded_modify points_fields)

lemma bulletKilledPlayer_guarded:
  "guarded key c st \<Longrightarrow> p_id p \<noteq> key \<Longrightarrow> guarded key c (Server_bulletKilledPlayer ch b p st)"
  using bulletKilledPlayer_players [of ch b p st]
  by (auto simp: guarded_def wf_players_modify wf_players_delete shielded_modify shielded_delete
      points_fields)

lemma processCollidedWith_guarded:
  assumes "guarded key c st" and "\<And>p. obj = Player p \<Longrightarrow> p_id p \<noteq> key"
  shows "guarded key c (CollidingObject_processCollidedWith ch obj other st)"
  using assms
  by (cases obj; cases other)
     (simp_all add: CollidingObject_processCollidedWith_def ServerPlayer_processCollidedWith_def
        ServerAsteroid_processCollidedWith_def ServerBullet_processCollidedWith_def
        asteroidKilledPlayer_guarded bulletKilledAsteroid_guarded bulletKilledPlayer_guarded)

lemma checkCollidedWith_guarded:
  assumes "guarded key c st" and "\<And>p. obj = Player p \<Longrightarrow> p_id p \<noteq> key"
  shows "guarded key c (Utils_checkCollidedWith hits ch obj othersArray st)"
proof -
  have "guarded key c (fold (CollidingObject_processCollidedWith ch obj) others st)" for others
    using assms(1)
    by (induction others arbitrary: st) (simp_all add: processCollidedWith_guarded assms(2))
  then show ?thesis by (simp add: Utils_checkCollidedWith_def)
qed

lemma checkCollidedWith_guarded_asteroid:
  "guarded key c st \<Longrightarrow> guarded key c (Utils_checkCollidedWith hits ch (Asteroid a) othersArray st)"
  by (rule checkCollidedWith_guarded) simp_all

lemma checkCollidedWith_guarded_player:
  "guarded key c st \<Longrightarrow> p_id p \<noteq> key \<Longrightarrow>
   guarded key c (Utils_checkCollidedWith hits ch (Player p) othersArray st)"
  by (rule checkCollidedWith_guarded) simp_all

lemma asteroidsCheck_guarded:
  "ServerGameData_asteroidsCheck hits ch i st = Some st' \<Longrightarrow> guarded key c st \<Longrightarrow> guarded key c st'"
proof (induction i arbitrary: st)
  case 0
  then show ?case by simp
next
  case (Suc i)
  then show ?case
    by (auto simp: ServerAsteroid_checkCollidedWith_def checkCollidedWith_guarded_asteroid
        split: if_splits)
qed

lemma playersCheck_guarded:
  assumes "guarded key c st" and "0 < c"
  shows "guarded key c (ServerGameData_playersCheck hits ch keys st)"
  using assms(1)
proof (induction keys arbitrary: st)
  case Nil
  then show ?case by simp
next
  case (Cons k keys)
  show ?case
  proof (cases "Map_get k (players (gameData st))")
    case None
    with Cons show ?thesis by simp
  next
    case (Some p)
    have "guarded key c (ServerPlayer_checkCollidedWith hits ch p
              [map Asteroid (asteroids (gameData st)), map Bullet (bullets (bulletHouse (gameData st)))] st)"
    proof (cases "k = key")
      case True
      with Some Cons.prems assms(2) have "ServerPlayer_isInvincible p"
        by (auto simp: guarded_def shielded_def ServerPlayer_isInvincible_def)
      with Cons.prems show ?thesis by (simp add: ServerPlayer_checkCollidedWith_def)
    next
      case False
      from Some have "(k, p) \<in> set (players (gameData st))"
        by (simp add: Map_get_def map_of_SomeD)
      with Cons.prems have "p_id p = k" by (auto simp: guarded_def wf_players_def)
      with False Cons.prems show ?thesis
        by (simp add: ServerPlayer_checkCollidedWith_def checkCollidedWith_guarded_player)
    qed
    with Some Cons.IH show ?thesis by simp
  qed
qed

lemma updatePlayers_keys:
  "map fst (fst (ServerGameData_updatePlayers ch ps (bh, k))) = map fst ps"
  by (induction ps arbitrary: bh k) (simp_all add: case_prod_beta Let_def)

lemma updatePlayers_entries:
  "e \<in> set (fst (ServerGameData_updatePlayers ch ps (bh, k))) \<Longrightarrow>
   \<exists>p bh' k'. (fst e, p) \<in> set ps
      \<and> snd e = fst (ServerPlayer_update ch k' ServerGameData_width ServerGameData_height (p, bh'))"
proof (induction ps arbitrary: bh k)
  case Nil
  then show ?case by simp
next
  case (Cons a ps)
  let ?r = "ServerPlayer_update ch k ServerGameData_width ServerGameData_height (snd a, bh)"
  from Cons.prems consider "e = (fst a, fst ?r)"
    | "e \<in> set (fst (ServerGameData_updatePlayers ch ps (snd ?r, k + 5)))"
    by (auto simp: case_prod_beta Let_def)
  then show ?case
  proof cases
    case 1
    have "(fst a, snd a) \<in> set (a # ps)" by simp
    with 1 show ?thesis by (metis fst_conv snd_conv)
  next
    case 2
    from Cons.IH [OF 2] show ?thesis by auto
  qed
qed

lemma updatePlayers_get:
  "Map_get key ps = Some p \<Longrightarrow>
   \<exists>bh' k'. Map_get key (fst (ServerGameData_updatePlayers ch ps (bh, k)))
      = Some (fst (ServerPlayer_update ch k' ServerGameData_width ServerGameData_height (p, bh')))"
proof (induction ps arbitrary: bh k)
  case Nil
  then show ?case by (simp add: Map_get_def)
next
  case (Cons a ps)
  show ?case
  proof (cases "fst a = key")
    case True
    with Cons.prems have "snd a = p" by (simp add: Map_get_def)
    with True show ?thesis
      by (simp add: Map_get_def case_prod_beta Let_def) blast
  next
    case False
    with Cons.prems have "Map_get key ps = Some p" by (simp add: Map_get_def)
    from Cons.IH [OF this] False show ?thesis
      by (simp add: Map_get_def case_prod_beta Let_def)
  qed
qed

lemma updatePlayers_wf:
  assumes "wf_players ps"
  shows "wf_players (fst (ServerGameData_updatePlayers ch ps (bh, k)))"
proof -
  have "p_id (snd e) = fst e" if "e \<in> set (fst (ServerGameData_updatePlayers ch ps (bh, k)))" for e
    using updatePlayers_entries [OF that] assms
    by (auto simp: wf_players_def ServerPlayer_update_fields)
  with assms show ?thesis by (simp add: wf_players_def updatePlayers_keys)
qed

lemma updatePlayers_shielded:
  assumes "shielded key c ps" and "0 < c"
  shows "shielded key (c - 1) (fst (ServerGameData_updatePlayers ch ps (bh, k)))"
proof -
  from assms(1) obtain p where p: "Map_get key ps = Some p" "p_invincibleCountdown p = c"
    by (auto simp: shielded_def)
  from updatePlayers_get [OF p(1), of ch bh k] p(2) assms(2) show ?thesis
    by (auto simp: shielded_def ServerPlayer_update_fields)
qed

lemma tick_moved_players:
  "players (gameData (tick_moved ch st))
     = fst (ServerGameData_updatePlayers ch (players (gameData st)) (bulletHouse (gameData st), slot st))"
  by (simp add: tick_moved_def Let_def case_prod_beta updateAsteroids_frame)

lemma update_guarded:
  assumes "ServerGameData_update hits ch st = Some st'"
    and "wf_players (players (gameData st))"
    and "shielded key c (players (gameData st))"
    and "1 < c"
  shows "guarded key (c - 1) st'"
proof -
  from assms(1) obtain st2 where
    st2: "ServerGameData_asteroidsCheck hits ch (length (asteroids (gameData (tick_moved ch st))))
            (tick_moved ch st) = Some st2"
    by (auto simp: update_stages split: option.splits)
  define st3 where "st3 = ServerGameData_playersCheck hits ch (map fst (players (gameData st2))) st2"
  from assms(1) st2 have st': "st' = st3\<lparr>gameData := fst (ServerGameData_topUp ch (gameData st3, slot st3)),
                       slot := snd (ServerGameData_topUp ch (gameData st3, slot st3))\<rparr>"
    by (simp add: update_stages st3_def Let_def)
  from assms(2,3,4) have "guarded key (c - 1) (tick_moved ch st)"
    by (simp add: guarded_def tick_moved_players updatePlayers_wf updatePlayers_shielded)
  with st2 have "guarded key (c - 1) st2" by (rule asteroidsCheck_guarded)
  with assms(4) have "guarded key (c - 1) st3"
    unfolding st3_def by (simp add: playersCheck_guarded)
  then show ?thesis by (simp add: st' guarded_def topUp_props)
qed

lemma asteroidKilledPlayer_wf:
  "wf_players (players (gameData st)) \<Longrightarrow>
   wf_players (players (gameData (Server_asteroidKilledPlayer ch a p st)))"
  by (simp add: asteroidKilledPlayer_players wf_players_delete)

lemma bulletKilledAsteroid_wf:
  "wf_players (players (gameData st)) \<Longrightarrow>
   wf_players (players (gameData (Server_bulletKilledAsteroid ch b a st)))"
  using bulletKilledAsteroid_players [of ch b a st]
  by (auto simp: wf_players_modify points_fields)

lemma bulletKilledPlayer_wf:
  "wf_players (players (gameData st)) \<Longrightarrow>
   wf_players (players (gameData (Server_bulletKilledPlayer ch b p st)))"
  using bulletKilledPlayer_players [of ch b p st]
  by (auto simp: wf_players_modify wf_players_delete points_fields)

lemma processCollidedWith_wf:
  "wf_players (players (gameData st)) \<Longrightarrow>
   wf_players (players (gameData (CollidingObject_processCollidedWith ch obj other st)))"
  by (cases obj; cases other)
     (simp_all add: CollidingObject_processCollidedWith_def ServerPlayer_processCollidedWith_def
        ServerAsteroid_processCollidedWith_def ServerBullet_processCollidedWith_def
        asteroidKilledPlayer_wf bulletKilledAsteroid_wf bulletKilledPlayer_wf)

lemma checkCollidedWith_wf:
  assumes "wf_players (players (gameData st))"
  shows "wf_players (players (gameData (Utils_checkCollidedWith hits ch obj othersArray st)))"
proof -
  have "wf_players (players (gameData (fold (CollidingObject_processCollidedWith ch obj) others st)))"
    for others
    using assms by (induction others arbitrary: st) (simp_all add: processCollidedWith_wf)
  then show ?thesis by (simp add: Utils_checkCollidedWith_def)
qed

lemma asteroidsCheck_wf:
  "ServerGameData_asteroidsCheck hits ch i st = Some st' \<Longrightarrow> wf_players (players (gameData st)) \<Longrightarrow>
   wf_players (players (gameData st'))"
proof (induction i arbitrary: st)
  case 0
  then show ?case by simp
next
  case (Suc i)
  then show ?case
    by (auto simp: ServerAsteroid_checkCollidedWith_def checkCollidedWith_wf split: if_splits)
qed

lemma playersCheck_wf:
  "wf_players (players (gameData st)) \<Longrightarrow>
   wf_players (players (gameData (ServerGameData_playersCheck hits ch keys st)))"
proof (induction keys arbitrary: st)
  case Nil
  then show ?case by simp
next
  case (Cons key keys)
  then show ?case
    by (auto simp: ServerPlayer_checkCollidedWith_def checkCollidedWith_wf split: option.splits)
qed

lemma update_wf:
  assumes "ServerGameData_update hits ch st = Some st'" and "wf_players (players (gameData st))"
  shows "wf_players (players (gameData st'))"
proof -
  from assms(1) obtain st2 where
    st2: "ServerGameData_asteroidsCheck hits ch (length (asteroids (gameData (tick_moved ch st))))
            (tick_moved ch st) = Some st2"
    by (auto simp: update_stages split: option.splits)
  define st3 where "st3 = ServerGameData_playersCheck hits ch (map fst (players (gameData st2))) st2"
  from assms(1) st2 have st': "st' = st3\<lparr>gameData := fst (ServerGameData_topUp ch (gameData st3, slot st3)),
                       slot := snd (ServerGameData_topUp ch (gameData st3, slot st3))\<rparr>"
    by (simp add: update_stages st3_def Let_def)
  from assms(2) have "wf_players (players (gameData (tick_moved ch st)))"
    by (simp add: tick_moved_players updatePlayers_wf)
  with st2 have "wf_players (players (gameData st2))" by (rule asteroidsCheck_wf)
  then have "wf_players (players (gameData st3))" unfolding st3_def by (rule playersCheck_wf)
  then show ?thesis by (simp add: st' topUp_props)
qed

lemma new_Server_fields:
  "players (gameData (new_Server ch)) = []"
  "bulletHouse (gameData (new_Server ch)) = new_BulletHouse"
  "connectedSockets (new_Server ch) = []"
  "outbox (new_Server ch) = []"
  by (simp_all add: new_Server_def new_ServerGameData_def case_prod_beta pushBigAsteroids_count)

lemma reachable_wf: "reachable hits ch st \<Longrightarrow> wf_players (players (gameData st))"
proof (induction rule: reachable.induct)
  case start
  show ?case by (simp add: new_Server_fields wf_players_def)
next
  case (tick st st')
  then obtain st1 where "ServerGameData_update hits ch st = Some st1"
    and "st' = st1\<lparr>outbox := outbox st1 @ map (\<lambda>socket. GameDataEvent (s_id socket)) (connectedSockets st1)\<rparr>"
    by (auto simp: Server_gameUpdateLoop_def split: option.splits)
  with tick.IH show ?case by (simp add: update_wf)
next
  case (connected st sid)
  then show ?case by (simp add: Server_onConnectedEvent_def)
next
  case (disconnected st sid)
  then show ?case
    by (simp add: Server_onDisconnectedEvent_def Let_def ServerGameData_recycleBulletsByFirerId_def
        ServerGameData_removePlayerById_def wf_players_delete split: option.splits)
next
  case (loggingIn st sid name color)
  then show ?case
    by (simp add: Server_onTryLoggingInEvent_def Let_def ServerGameData_addPlayer_def
        wf_players_set new_ServerPlayer_def split: option.splits)
next
  case (playerInput st sid playerInput)
  have "p_id (ServerPlayer_applyInput playerInput p) = p_id p" for p
    by (simp add: ServerPlayer_applyInput_def)
  with playerInput.IH show ?case
    by (simp add: Server_onPlayerInputEvent_def wf_players_modify split: option.splits)
qed

lemma example_logged_in_player:
  "Map_get ''s1'' (players (gameData example_logged_in))
     = Some (new_ServerPlayer example_chance (slot (new_Server example_chance)) ''s1'' ''ann'' example_color
               (ServerGameData_width / 2) (ServerGameData_height / 2))"
  by (simp add: example_logged_in_def Server_onTryLoggingInEvent_def Server_onConnectedEvent_def
      new_Server_fields ServerGameData_addPlayer_def Let_def Map_get_def)

text \<open>
  Claim C5. A new ship has the countdown 255. The update of a ship lowers a positive
  countdown by exactly one and leaves any other as it is, so a countdown that is not
  negative never becomes negative. A ship is invincible exactly when its countdown is
  positive. The collision check of an invincible ship returns the state unchanged, whatever
  the detection would report. Over a whole tick from a state the server reaches: a ship
  whose countdown is above one at the start, and so still positive when the collision
  passes run, is in the collection after the tick, with the countdown lowered by one; no
  collision removed it.
\<close>

theorem invincibility:
  "p_invincibleCountdown (new_ServerPlayer ch k ident name color x y) = 255
   \<and> (let q = fst (ServerPlayer_update ch k width height (p, bh))
      in p_invincibleCountdown q
           = (if 0 < p_invincibleCountdown p then p_invincibleCountdown p - 1
              else p_invincibleCountdown p)
         \<and> (0 \<le> p_invincibleCountdown p \<longrightarrow> 0 \<le> p_invincibleCountdown q))
   \<and> (ServerPlayer_isInvincible p \<longleftrightarrow> 0 < p_invincibleCountdown p)
   \<and> (ServerPlayer_isInvincible p \<longrightarrow>
        ServerPlayer_checkCollidedWith hits ch p othersArray st = st)
   \<and> (reachable hits ch st \<and> ServerGameData_update hits ch st = Some st'
        \<and> Map_get key (players (gameData st)) = Some p \<and> 1 < p_invincibleCountdown p \<longrightarrow>
        (\<exists>q. Map_get key (players (gameData st')) = Some q
            \<and> p_invincibleCountdown q = p_invincibleCountdown p - 1))"
proof -
  have survive: "\<exists>q. Map_get key (players (gameData st')) = Some q
            \<and> p_invincibleCountdown q = p_invincibleCountdown p - 1"
    if r: "reachable hits ch st" and u: "ServerGameData_update hits ch st = Some st'"
      and g: "Map_get key (players (gameData st)) = Some p" and c: "1 < p_invincibleCountdown p"
  proof -
    from r have "wf_players (players (gameData st))" by (rule reachable_wf)
    moreover from g have "shielded key (p_invincibleCountdown p) (players (gameData st))"
      by (auto simp: shielded_def)
    ultimately have "guarded key (p_invincibleCountdown p - 1) st'"
      using c by (rule update_guarded [OF u])
    then show ?thesis by (simp add: guarded_def shielded_def)
  qed
  show ?thesis
    using survive
    by (simp add: new_ServerPlayer_def Let_def ServerPlayer_update_fields ServerPlayer_isInvincible_def
        ServerPlayer_checkCollidedWith_def)
qed

theorem invincibility_witness:
  "\<exists>st' q. ServerGameData_update example_hits example_chance example_logged_in = Some st'
      \<and> Map_get ''s1'' (players (gameData st')) = Some q \<and> p_invincibleCountdown q = 254"
proof -
  from update_no_hits_returns obtain st' where
    st': "ServerGameData_update example_hits example_chance example_logged_in = Some st'"
    by blast
  have r: "reachable example_hits example_chance example_logged_in"
    unfolding example_logged_in_def by (intro reachable.loggingIn reachable.connected reachable.start)
  let ?p = "new_ServerPlayer example_chance (slot (new_Server example_chance)) ''s1'' ''ann'' example_color
               (ServerGameData_width / 2) (ServerGameData_height / 2)"
  have c: "p_invincibleCountdown ?p = 255" by (simp add: new_ServerPlayer_def)
  from invincibility [of example_chance 0 "''s1''" "''ann''" example_color 0 0 0 0 ?p new_BulletHouse
      example_hits "[]" example_logged_in st' "''s1''"] r st' example_logged_in_player c
  have "\<exists>q. Map_get ''s1'' (players (gameData st')) = Some q \<and> p_invincibleCountdown q = 254"
    by simp
  with st' show ?thesis by blast
qed

subsection \<open>A tick returns\<close>

text \<open>The first collision pass reads \<open>asteroids[i]\<close> while the handlers splice and
  push into the array. With ids that never repeat the read is always inside the array.\<close>

lemma ids_ok_mono: "ids_ok ch xs k \<Longrightarrow> k \<le> k' \<Longrightarrow> ids_ok ch xs k'"
  unfolding ids_ok_def by (meson less_le_trans)

lemma distinct_splice1: "distinct ys \<Longrightarrow> distinct (splice1 i ys)"
proof -
  assume d: "distinct ys"
  have "distinct (take i ys @ drop i ys)" using d by simp
  then have "set (take i ys) \<inter> set (drop i ys) = {}"
    by (simp only: distinct_append)
  moreover have "set (drop (Suc i) ys) \<subseteq> set (drop i ys)"
    by (simp add: set_drop_subset_set_drop)
  moreover have "distinct (take i ys)" "distinct (drop (Suc i) ys)" using d by simp_all
  ultimately show ?thesis unfolding splice1_def by auto
qed

lemma map_splice1: "map f (splice1 i xs) = splice1 i (map f xs)"
  by (simp add: splice1_def take_map drop_map)

lemma set_splice1: "set (splice1 i xs) \<subseteq> set xs"
  by (auto simp: splice1_def dest: in_set_takeD in_set_dropD)

lemma ids_ok_splice1: "ids_ok ch xs k \<Longrightarrow> ids_ok ch (splice1 i xs) k"
  using set_splice1 [of i xs]
  by (auto simp: ids_ok_def map_splice1 distinct_splice1)

lemma ids_ok_update:
  assumes "ids_ok ch xs k" and "i < length xs" and "a_id a = a_id (xs ! i)"
  shows "ids_ok ch (xs[i := a]) k"
proof -
  have "map a_id (xs[i := a]) = map a_id xs"
    using assms(2,3) by (simp add: map_update list_update_same_conv)
  moreover have "\<exists>j<k. a_id b = uuid ch j" if "b \<in> set (xs[i := a])" for b
  proof -
    from that set_update_subset_insert [of xs i a]
    have "b = a \<or> b \<in> set xs" by auto
    moreover have "xs ! i \<in> set xs" using assms(2) by simp
    ultimately show ?thesis using assms(1,3) by (auto simp: ids_ok_def)
  qed
  ultimately show ?thesis using assms(1) by (simp add: ids_ok_def)
qed

lemma ids_ok_push:
  assumes "inj (uuid ch)" and "ids_ok ch xs k" and "a_id a = uuid ch j" and "k \<le> j" and "j < k'"
  shows "ids_ok ch (xs @ [a]) k'"
proof -
  have "a_id a \<notin> a_id ` set xs"
  proof
    assume "a_id a \<in> a_id ` set xs"
    then obtain b where "b \<in> set xs" "a_id b = a_id a" by auto
    with assms(2) obtain j' where "j' < k" "a_id a = uuid ch j'" by (auto simp: ids_ok_def)
    with assms(1,3,4) show False by (auto dest: injD)
  qed
  moreover have "\<forall>b\<in>set xs. \<exists>i<k'. a_id b = uuid ch i"
    using assms(2,4,5) unfolding ids_ok_def by (meson less_le_trans less_imp_le)
  ultimately show ?thesis using assms(2,3,5) by (auto simp: ids_ok_def)
qed

text \<open>\<open>breakAsteroid\<close> in closed form.\<close>

lemma breakAsteroid_eq:
  "ServerGameData_breakAsteroid ch a (gd, k) =
     (case findIndex (\<lambda>v. a_id a = a_id v) (asteroids gd) of
        None \<Rightarrow> (gd, k)
      | Some i \<Rightarrow>
          if a_isBig (asteroids gd ! i)
          then (let r = asteroids gd ! i;
                    c1 = ServerAsteroid_createPieceOf ch k ServerGameData_width ServerGameData_height r;
                    c2 = ServerAsteroid_createPieceOf ch (snd c1) ServerGameData_width ServerGameData_height r;
                    c3 = ServerAsteroid_createPieceOf ch (snd c2) ServerGameData_width ServerGameData_height r
                in (gd\<lparr>asteroids := ((splice1 i (asteroids gd) @ [fst c1]) @ [fst c2]) @ [fst c3],
                       curBigAsteroidsCount := curBigAsteroidsCount gd - 1\<rparr>, snd c3))
          else (gd\<lparr>asteroids := splice1 i (asteroids gd)\<rparr>, k))"
  by (simp add: ServerGameData_breakAsteroid_def ServerGameData_removeAsteroidById_def Let_def
      case_prod_beta split: option.splits)

lemma breakAsteroid_ids:
  assumes "inj (uuid ch)" and "ids_ok ch (asteroids gd) k"
  shows "ids_ok ch (asteroids (fst (ServerGameData_breakAsteroid ch a (gd, k))))
           (snd (ServerGameData_breakAsteroid ch a (gd, k)))"
    and "k \<le> snd (ServerGameData_breakAsteroid ch a (gd, k))"
proof -
  let ?W = ServerGameData_width and ?H = ServerGameData_height
  have both: "ids_ok ch (asteroids (fst (ServerGameData_breakAsteroid ch a (gd, k))))
           (snd (ServerGameData_breakAsteroid ch a (gd, k)))
       \<and> k \<le> snd (ServerGameData_breakAsteroid ch a (gd, k))"
  proof (cases "findIndex (\<lambda>v. a_id a = a_id v) (asteroids gd)")
    case None
    with assms(2) show ?thesis by (simp add: breakAsteroid_eq)
  next
    case (Some i)
    let ?r = "asteroids gd ! i"
    let ?c1 = "ServerAsteroid_createPieceOf ch k ?W ?H ?r"
    let ?c2 = "ServerAsteroid_createPieceOf ch (snd ?c1) ?W ?H ?r"
    let ?c3 = "ServerAsteroid_createPieceOf ch (snd ?c2) ?W ?H ?r"
    from assms(2) have s: "ids_ok ch (splice1 i (asteroids gd)) k" by (rule ids_ok_splice1)
    have k1: "k < snd ?c1" and k2: "snd ?c1 < snd ?c2" and k3: "snd ?c2 < snd ?c3"
      by (rule createPieceOf_id(2))+
    have p1: "ids_ok ch (splice1 i (asteroids gd) @ [fst ?c1]) (snd ?c1)"
      by (rule ids_ok_push [OF assms(1) s createPieceOf_id(1) le_refl k1])
    have p2: "ids_ok ch ((splice1 i (asteroids gd) @ [fst ?c1]) @ [fst ?c2]) (snd ?c2)"
      by (rule ids_ok_push [OF assms(1) p1 createPieceOf_id(1) le_refl k2])
    have p3: "ids_ok ch (((splice1 i (asteroids gd) @ [fst ?c1]) @ [fst ?c2]) @ [fst ?c3]) (snd ?c3)"
      by (rule ids_ok_push [OF assms(1) p2 createPieceOf_id(1) le_refl k3])
    from k1 k2 k3 have "k \<le> snd ?c3" by simp
    with Some s p3 show ?thesis
      by (simp add: breakAsteroid_eq Let_def del: append_assoc)
  qed
  from both show "ids_ok ch (asteroids (fst (ServerGameData_breakAsteroid ch a (gd, k))))
           (snd (ServerGameData_breakAsteroid ch a (gd, k)))" ..
  from both show "k \<le> snd (ServerGameData_breakAsteroid ch a (gd, k))" ..
qed

text \<open>While \<open>a\<close> shares its id with none of the first \<open>i\<close> asteroids, breaking it
  leaves those in place.\<close>

lemma breakAsteroid_prefix:
  assumes "i \<le> length (asteroids gd)" and "a_id a \<notin> a_id ` set (take i (asteroids gd))"
  shows "take i (asteroids (fst (ServerGameData_breakAsteroid ch a (gd, k)))) = take i (asteroids gd)"
proof (cases "findIndex (\<lambda>v. a_id a = a_id v) (asteroids gd)")
  case None
  then show ?thesis by (simp add: breakAsteroid_eq)
next
  case (Some j)
  from findIndex_Some [OF Some] have j: "j < length (asteroids gd)" "a_id a = a_id (asteroids gd ! j)"
    by simp_all
  have ij: "i \<le> j"
  proof (rule ccontr)
    assume "\<not> i \<le> j"
    then have "asteroids gd ! j \<in> set (take i (asteroids gd))"
      using j(1) by (metis in_set_conv_nth length_take min_less_iff_conj not_le nth_take)
    with j(2) assms(2) show False by auto
  qed
  then have t: "take i (splice1 j (asteroids gd)) = take i (asteroids gd)"
    by (simp add: splice1_def min_def)
  have l: "i \<le> length (splice1 j (asteroids gd))"
    using ij j(1) by (simp add: splice1_def)
  from Some t l show ?thesis
    by (simp add: breakAsteroid_eq Let_def)
qed

lemma break_keeps:
  assumes "inj (uuid ch)" and "ids_ok ch (asteroids gd) k"
    and "take (length pre) (asteroids gd) = pre" and "a_id a \<notin> a_id ` set pre"
  shows "ids_ok ch (asteroids (fst (ServerGameData_breakAsteroid ch a (gd, k))))
           (snd (ServerGameData_breakAsteroid ch a (gd, k)))
       \<and> take (length pre) (asteroids (fst (ServerGameData_breakAsteroid ch a (gd, k)))) = pre"
proof -
  from assms(3) have "length (take (length pre) (asteroids gd)) = length pre" by simp
  then have "length pre \<le> length (asteroids gd)" by simp
  from breakAsteroid_prefix [OF this, of a ch k] assms(3,4)
  have "take (length pre) (asteroids (fst (ServerGameData_breakAsteroid ch a (gd, k)))) = pre"
    by simp
  with breakAsteroid_ids(1) [OF assms(1,2), of a] show ?thesis by simp
qed

lemma asteroids_frame:
  "asteroids (ServerGameData_recycleBulletById ident gd) = asteroids gd"
  "asteroids (ServerGameData_recycleBulletsByFirerId firerId gd) = asteroids gd"
  "asteroids (snd (ServerGameData_removePlayerById ident gd)) = asteroids gd"
  by (simp_all add: ServerGameData_recycleBulletById_def
      ServerGameData_recycleBulletsByFirerId_def ServerGameData_removePlayerById_def
      split: option.splits)

lemma asteroidKilledPlayer_asteroids:
  "\<exists>gd'. asteroids gd' = asteroids (gameData st)
     \<and> asteroids (gameData (Server_asteroidKilledPlayer ch a p st))
         = asteroids (fst (ServerGameData_breakAsteroid ch a (gd', slot st)))
     \<and> slot (Server_asteroidKilledPlayer ch a p st)
         = snd (ServerGameData_breakAsteroid ch a (gd', slot st))"
proof (cases "fst (ServerGameData_removePlayerById (p_id p) (gameData st))")
  case None
  then show ?thesis
    by (intro exI [of _ "gameData st"]) (simp add: Server_asteroidKilledPlayer_def Let_def case_prod_beta)
next
  case (Some kp)
  let ?gd = "ServerGameData_recycleBulletsByFirerId (p_id kp)
               (snd (ServerGameData_removePlayerById (p_id p) (gameData st)))"
  from Some show ?thesis
    by (intro exI [of _ ?gd])
       (simp add: Server_asteroidKilledPlayer_def Let_def case_prod_beta notifyKilled_frame
          asteroids_frame)
qed

lemma bulletKilledAsteroid_asteroids:
  "(asteroids (gameData (Server_bulletKilledAsteroid ch b a st)) = asteroids (gameData st)
      \<and> slot (Server_bulletKilledAsteroid ch b a st) = slot st)
   \<or> (asteroids (gameData (Server_bulletKilledAsteroid ch b a st))
         = asteroids (fst (ServerGameData_breakAsteroid ch a (gameData st, slot st)))
      \<and> slot (Server_bulletKilledAsteroid ch b a st)
         = snd (ServerGameData_breakAsteroid ch a (gameData st, slot st)))"
  by (simp add: Server_bulletKilledAsteroid_def Let_def case_prod_beta asteroids_frame
      split: option.splits)

lemma bulletKilledPlayer_asteroids:
  "asteroids (gameData (Server_bulletKilledPlayer ch b p st)) = asteroids (gameData st)"
  "slot (Server_bulletKilledPlayer ch b p st) = slot st"
  by (simp_all add: Server_bulletKilledPlayer_def Let_def case_prod_beta asteroids_frame
      notifyKilled_frame ServerGameData_removePlayerById_def
      ServerGameData_recycleBulletsByFirerId_def ServerGameData_recycleBulletById_def
      split: option.splits)

lemma bulletKilledAsteroid_keeps:
  assumes "inj (uuid ch)" and "keeps ch pre st" and "a_id a \<notin> a_id ` set pre"
  shows "keeps ch pre (Server_bulletKilledAsteroid ch b a st)"
  using bulletKilledAsteroid_asteroids [of ch b a st] assms(2)
    break_keeps [OF assms(1) _ _ assms(3), of "gameData st" "slot st"]
  by (auto simp: keeps_def)

lemma asteroidKilledPlayer_keeps:
  assumes "inj (uuid ch)" and "keeps ch [] st"
  shows "keeps ch [] (Server_asteroidKilledPlayer ch a p st)"
proof -
  from asteroidKilledPlayer_asteroids [of st ch a p] obtain gd' where
    gd': "asteroids gd' = asteroids (gameData st)"
      "asteroids (gameData (Server_asteroidKilledPlayer ch a p st))
         = asteroids (fst (ServerGameData_breakAsteroid ch a (gd', slot st)))"
      "slot (Server_asteroidKilledPlayer ch a p st)
         = snd (ServerGameData_breakAsteroid ch a (gd', slot st))"
    by blast
  from assms(2) gd'(1) have "ids_ok ch (asteroids gd') (slot st)" by (simp add: keeps_def)
  from breakAsteroid_ids(1) [OF assms(1) this, of a] gd'(2,3) show ?thesis
    by (simp add: keeps_def)
qed

lemma bulletKilledPlayer_keeps:
  "keeps ch pre st \<Longrightarrow> keeps ch pre (Server_bulletKilledPlayer ch b p st)"
  by (simp add: keeps_def bulletKilledPlayer_asteroids)

text \<open>The check of the asteroid at index \<open>i\<close> leaves the asteroids below \<open>i\<close> in
  place.\<close>

lemma asteroid_check_keeps:
  assumes "inj (uuid ch)" and "keeps ch pre st" and "a_id a \<notin> a_id ` set pre"
  shows "keeps ch pre (ServerAsteroid_checkCollidedWith hits ch a othersArray st)"
proof -
  have step: "keeps ch pre (CollidingObject_processCollidedWith ch (Asteroid a) other s)"
    if "keeps ch pre s" for other s
    using that assms(1,3)
    by (cases other)
       (simp_all add: CollidingObject_processCollidedWith_def ServerAsteroid_processCollidedWith_def
          bulletKilledAsteroid_keeps)
  have "keeps ch pre (fold (CollidingObject_processCollidedWith ch (Asteroid a)) others st)" for others
    using assms(2) by (induction others arbitrary: st) (simp_all add: step)
  then show ?thesis
    by (simp add: ServerAsteroid_checkCollidedWith_def Utils_checkCollidedWith_def)
qed

lemma player_check_keeps:
  assumes "inj (uuid ch)" and "keeps ch [] st"
  shows "keeps ch [] (ServerPlayer_checkCollidedWith hits ch p othersArray st)"
proof -
  have step: "keeps ch [] (CollidingObject_processCollidedWith ch (Player p) other s)"
    if "keeps ch [] s" for other s
    using that assms(1)
    by (cases other)
       (simp_all add: CollidingObject_processCollidedWith_def ServerPlayer_processCollidedWith_def
          asteroidKilledPlayer_keeps bulletKilledPlayer_keeps)
  have "keeps ch [] (fold (CollidingObject_processCollidedWith ch (Player p)) others st)" for others
    using assms(2) by (induction others arbitrary: st) (simp_all add: step)
  with assms(2) show ?thesis
    by (simp add: ServerPlayer_checkCollidedWith_def Utils_checkCollidedWith_def)
qed

lemma asteroidsCheck_returns:
  assumes "inj (uuid ch)"
  shows "ids_ok ch (asteroids (gameData st)) (slot st) \<Longrightarrow> i \<le> length (asteroids (gameData st)) \<Longrightarrow>
         \<exists>st'. ServerGameData_asteroidsCheck hits ch i st = Some st'
            \<and> ids_ok ch (asteroids (gameData st')) (slot st')"
proof (induction i arbitrary: st)
  case 0
  then show ?case by simp
next
  case (Suc i)
  let ?xs = "asteroids (gameData st)"
  let ?a = "?xs ! i"
  let ?st1 = "ServerAsteroid_checkCollidedWith hits ch ?a
                [map Bullet (bullets (bulletHouse (gameData st)))] st"
  from Suc.prems(2) have i: "i < length ?xs" by simp
  have k0: "keeps ch (take i ?xs) st"
    using Suc.prems(1) i by (simp add: keeps_def min_def)
  have "distinct (map a_id ?xs)" using Suc.prems(1) by (simp add: ids_ok_def)
  then have "distinct (map a_id (take i ?xs) @ a_id ?a # map a_id (drop (Suc i) ?xs))"
    using i by (metis id_take_nth_drop list.simps(9) map_append)
  then have fresh: "a_id ?a \<notin> a_id ` set (take i ?xs)" by auto
  from asteroid_check_keeps [OF assms k0 fresh]
  have k1: "keeps ch (take i ?xs) ?st1" .
  then have ok1: "ids_ok ch (asteroids (gameData ?st1)) (slot ?st1)" by (simp add: keeps_def)
  from k1 i have "take i (asteroids (gameData ?st1)) = take i ?xs"
    by (simp add: keeps_def min_def)
  then have "i \<le> length (asteroids (gameData ?st1))"
    using i by (metis length_take less_imp_le min.absorb2 min.cobounded1)
  from Suc.IH [OF ok1 this] i show ?case by simp
qed

lemma updatePlayers_slot:
  "k \<le> snd (snd (ServerGameData_updatePlayers ch ps (bh, k)))"
proof (induction ps arbitrary: bh k)
  case Nil
  then show ?case by simp
next
  case (Cons e es)
  let ?r = "ServerPlayer_update ch k ServerGameData_width ServerGameData_height (snd e, bh)"
  from Cons.IH [of "k + 5" "snd ?r"] show ?case
    by (simp add: case_prod_beta Let_def)
qed

lemma a_id_kept:
  "a_id (ServerAsteroid_update w h a) = a_id a"
  "a_id (ServerAsteroid_setTarget ch k x y a) = a_id a"
  "a_id (ServerGameData_retarget ch k ps a) = a_id a"
  by (simp_all add: ServerAsteroid_update_def ServerAsteroid_setTarget_def
      ServerGameData_retarget_def Let_def)

lemma updateAsteroids_ids:
  "ids_ok ch (asteroids gd) k \<Longrightarrow>
   ids_ok ch (asteroids (fst (ServerGameData_updateAsteroids ch i (gd, k))))
     (snd (ServerGameData_updateAsteroids ch i (gd, k)))"
proof (induction ch i "(gd, k)" arbitrary: gd k rule: ServerGameData_updateAsteroids.induct)
  case (1 ch i gd k)
  let ?a = "ServerAsteroid_update ServerGameData_width ServerGameData_height (asteroids gd ! i)"
  show ?case
  proof (cases "i < length (asteroids gd)")
    case False
    with "1.prems" show ?thesis by (subst (1 2) ServerGameData_updateAsteroids.simps) simp
  next
    case len: True
    show ?thesis
    proof (cases "a_needNewTarget ?a")
      case False
      have "ids_ok ch (asteroids (gd\<lparr>asteroids := (asteroids gd)[i := ?a]\<rparr>)) k"
        using "1.prems" len by (simp add: ids_ok_update a_id_kept)
      from "1.hyps"(3) [OF len refl False this] len False show ?thesis
        by (subst (1 2) ServerGameData_updateAsteroids.simps) (simp add: Let_def)
    next
      case need: True
      show ?thesis
      proof (cases "a_isBig ?a")
        case True
        have "ids_ok ch
                (asteroids (gd\<lparr>asteroids := (asteroids gd)[i := ServerGameData_retarget ch k (players gd) ?a]\<rparr>))
                (k + 4)"
          using "1.prems" len by (simp add: ids_ok_update a_id_kept ids_ok_mono [of ch _ k])
        from "1.hyps"(1) [OF len refl need True this] len need True show ?thesis
          by (subst (1 2) ServerGameData_updateAsteroids.simps) (simp add: Let_def)
      next
        case False
        have "ids_ok ch (asteroids (gd\<lparr>asteroids := splice1 i (asteroids gd)\<rparr>)) k"
          using "1.prems" by (simp add: ids_ok_splice1)
        from "1.hyps"(2) [OF len refl need False this] len need False show ?thesis
          by (subst (1 2) ServerGameData_updateAsteroids.simps) (simp add: Let_def)
      qed
    qed
  qed
qed

lemma tick_moved_ids:
  assumes "ids_ok ch (asteroids (gameData st)) (slot st)"
  shows "ids_ok ch (asteroids (gameData (tick_moved ch st))) (slot (tick_moved ch st))"
proof -
  let ?r = "ServerGameData_updatePlayers ch (players (gameData st)) (bulletHouse (gameData st), slot st)"
  let ?gd = "(gameData st)\<lparr>players := fst ?r,
      bulletHouse := BulletHouse_update ServerGameData_width ServerGameData_height (fst (snd ?r))\<rparr>"
  from assms updatePlayers_slot [of "slot st" ch "players (gameData st)" "bulletHouse (gameData st)"]
  have "ids_ok ch (asteroids ?gd) (snd (snd ?r))" by (simp add: ids_ok_mono)
  from updateAsteroids_ids [OF this, of 0] show ?thesis
    by (simp add: tick_moved_def Let_def case_prod_beta)
qed

lemma playersCheck_keeps:
  assumes "inj (uuid ch)"
  shows "keeps ch [] st \<Longrightarrow> keeps ch [] (ServerGameData_playersCheck hits ch keys st)"
proof (induction keys arbitrary: st)
  case Nil
  then show ?case by simp
next
  case (Cons key keys)
  then show ?case
    by (cases "Map_get key (players (gameData st))")
       (simp_all add: player_check_keeps [OF assms])
qed

lemma pushBigAsteroids_ids:
  assumes "inj (uuid ch)"
  shows "ids_ok ch (asteroids gd) k \<Longrightarrow>
         ids_ok ch (asteroids (fst (ServerGameData_pushBigAsteroids ch n (gd, k))))
           (snd (ServerGameData_pushBigAsteroids ch n (gd, k)))"
proof (induction n arbitrary: gd k)
  case 0
  then show ?case by simp
next
  case (Suc n)
  let ?c = "new_ServerAsteroid ch k ServerGameData_width ServerGameData_height True"
  have "ids_ok ch (asteroids gd @ [fst ?c]) (snd ?c)"
    by (rule ids_ok_push [OF assms Suc.prems new_ServerAsteroid_id(1) le_refl new_ServerAsteroid_id(2)])
  then have "ids_ok ch
      (asteroids (gd\<lparr>asteroids := asteroids gd @ [fst ?c],
                     curBigAsteroidsCount := curBigAsteroidsCount gd + 1\<rparr>)) (snd ?c)"
    by simp
  from Suc.IH [OF this] show ?case by (simp add: case_prod_beta Let_def)
qed

lemma topUp_ids:
  assumes "inj (uuid ch)" and "ids_ok ch (asteroids gd) k"
  shows "ids_ok ch (asteroids (fst (ServerGameData_topUp ch (gd, k)))) (snd (ServerGameData_topUp ch (gd, k)))"
  using assms by (simp add: ServerGameData_topUp_def Let_def pushBigAsteroids_ids)

lemma update_returns:
  assumes "inj (uuid ch)" and "ids_ok ch (asteroids (gameData st)) (slot st)"
  shows "\<exists>st'. ServerGameData_update hits ch st = Some st'
            \<and> ids_ok ch (asteroids (gameData st')) (slot st')"
proof -
  from assms(2) have m: "ids_ok ch (asteroids (gameData (tick_moved ch st))) (slot (tick_moved ch st))"
    by (rule tick_moved_ids)
  from asteroidsCheck_returns [OF assms(1) m le_refl, of hits] obtain st2 where
    st2: "ServerGameData_asteroidsCheck hits ch (length (asteroids (gameData (tick_moved ch st))))
            (tick_moved ch st) = Some st2"
    and ok2: "ids_ok ch (asteroids (gameData st2)) (slot st2)"
    by blast
  define st3 where "st3 = ServerGameData_playersCheck hits ch (map fst (players (gameData st2))) st2"
  from ok2 have "keeps ch [] st2" by (simp add: keeps_def)
  then have "keeps ch [] st3" unfolding st3_def by (rule playersCheck_keeps [OF assms(1)])
  then have "ids_ok ch (asteroids (gameData st3)) (slot st3)" by (simp add: keeps_def)
  from topUp_ids [OF assms(1) this] st2 show ?thesis
    by (simp add: update_stages st3_def Let_def)
qed

lemma new_ServerGameData_ids:
  assumes "inj (uuid ch)"
  shows "ids_ok ch (asteroids (fst (new_ServerGameData ch k))) (snd (new_ServerGameData ch k))"
  unfolding new_ServerGameData_def
  by (rule pushBigAsteroids_ids [OF assms]) (simp add: ids_ok_def)

lemma reachable_ids:
  assumes "inj (uuid ch)"
  shows "reachable hits ch st \<Longrightarrow> ids_ok ch (asteroids (gameData st)) (slot st)"
proof (induction rule: reachable.induct)
  case start
  from new_ServerGameData_ids [OF assms, of 0] show ?case
    by (simp add: new_Server_def case_prod_beta)
next
  case (tick st st')
  from update_returns [OF assms tick.IH, of hits] tick.hyps(2) show ?case
    by (auto simp: Server_gameUpdateLoop_def)
next
  case (connected st sid)
  then show ?case by (simp add: Server_onConnectedEvent_def)
next
  case (disconnected st sid)
  then show ?case
    by (simp add: Server_onDisconnectedEvent_def Let_def asteroids_frame split: option.splits)
next
  case (loggingIn st sid name color)
  then show ?case
    by (simp add: Server_onTryLoggingInEvent_def Let_def ServerGameData_addPlayer_def
        ids_ok_mono [of ch _ "slot st"] split: option.splits)
next
  case (playerInput st sid playerInput)
  then show ?case by (simp add: Server_onPlayerInputEvent_def split: option.splits)
qed

text \<open>
  When \<open>uuid\<close> never yields the same id twice, the game loop returns in every state
  the server reaches, into a state it reaches: the first collision pass never reads past
  the end of the asteroid array, whatever the detection reports.
\<close>

theorem tick_returns:
  assumes "inj (uuid ch)" and "reachable hits ch st"
  shows "\<exists>st'. Server_gameUpdateLoop hits ch st = Some st' \<and> reachable hits ch st'"
proof -
  from update_returns [OF assms(1) reachable_ids [OF assms], of hits] obtain st1 where
    "ServerGameData_update hits ch st = Some st1" by blast
  then have "\<exists>st'. Server_gameUpdateLoop hits ch st = Some st'"
    by (simp add: Server_gameUpdateLoop_def)
  with assms(2) show ?thesis by (blast intro: reachable.tick)
qed

theorem tick_returns_witness:
  "\<exists>st'. Server_gameUpdateLoop example_hits example_chance example_logged_in = Some st'
      \<and> reachable example_hits example_chance st'"
proof -
  have "reachable example_hits example_chance example_logged_in"
    unfolding example_logged_in_def by (intro reachable.loggingIn reachable.connected reachable.start)
  from tick_returns [OF example_chance_uuid this] show ?thesis .
qed

subsection \<open>The pool of the running server\<close>

lemma fire_pool:
  "pool_reachable bh \<Longrightarrow> pool_reachable (snd (ServerPlayer_fire ch k (p, bh)))"
  by (simp add: ServerPlayer_fire_def Let_def pool_fire)

lemma ServerPlayer_update_pool:
  "pool_reachable bh \<Longrightarrow> pool_reachable (snd (ServerPlayer_update ch k w h (p, bh)))"
  by (simp add: ServerPlayer_update_def Let_def case_prod_beta fire_pool)

lemma updatePlayers_pool:
  "pool_reachable bh \<Longrightarrow> pool_reachable (fst (snd (ServerGameData_updatePlayers ch ps (bh, k))))"
proof (induction ps arbitrary: bh k)
  case Nil
  then show ?case by simp
next
  case (Cons e es)
  let ?r = "ServerPlayer_update ch k ServerGameData_width ServerGameData_height (snd e, bh)"
  from Cons.prems have "pool_reachable (snd ?r)" by (rule ServerPlayer_update_pool)
  from Cons.IH [OF this, of "k + 5"] show ?case by (simp add: case_prod_beta Let_def)
qed

lemma tick_moved_pool:
  assumes "pool_reachable (bulletHouse (gameData st))"
  shows "pool_reachable (bulletHouse (gameData (tick_moved ch st)))"
  using assms
  by (simp add: tick_moved_def Let_def case_prod_beta updateAsteroids_frame updatePlayers_pool pool_update)

lemma handlers_pool:
  assumes "pool_reachable (bulletHouse (gameData st))"
  shows "pool_reachable (bulletHouse (gameData (Server_asteroidKilledPlayer ch a p st)))"
    and "pool_reachable (bulletHouse (gameData (Server_bulletKilledAsteroid ch b a st)))"
    and "pool_reachable (bulletHouse (gameData (Server_bulletKilledPlayer ch b p st)))"
  using assms
  by (simp_all add: Server_asteroidKilledPlayer_def Server_bulletKilledAsteroid_def
      Server_bulletKilledPlayer_def Let_def case_prod_beta breakAsteroid_frame notifyKilled_frame
      ServerGameData_removePlayerById_def ServerGameData_recycleBulletsByFirerId_def
      ServerGameData_recycleBulletById_def pool_recycleById pool_recycleByFirer
      split: option.splits)

lemma checkCollidedWith_pool:
  assumes "pool_reachable (bulletHouse (gameData st))"
  shows "pool_reachable (bulletHouse (gameData (Utils_checkCollidedWith hits ch obj othersArray st)))"
proof -
  have step: "pool_reachable (bulletHouse (gameData (CollidingObject_processCollidedWith ch obj other s)))"
    if "pool_reachable (bulletHouse (gameData s))" for other s
    using that
    by (cases obj; cases other)
       (simp_all add: CollidingObject_processCollidedWith_def ServerPlayer_processCollidedWith_def
          ServerAsteroid_processCollidedWith_def ServerBullet_processCollidedWith_def handlers_pool)
  have "pool_reachable (bulletHouse (gameData (fold (CollidingObject_processCollidedWith ch obj) others st)))"
    for others
    using assms by (induction others arbitrary: st) (simp_all add: step)
  then show ?thesis by (simp add: Utils_checkCollidedWith_def)
qed

lemma asteroidsCheck_pool:
  "ServerGameData_asteroidsCheck hits ch i st = Some st' \<Longrightarrow>
   pool_reachable (bulletHouse (gameData st)) \<Longrightarrow> pool_reachable (bulletHouse (gameData st'))"
proof (induction i arbitrary: st)
  case 0
  then show ?case by simp
next
  case (Suc i)
  then show ?case
    by (auto simp: ServerAsteroid_checkCollidedWith_def checkCollidedWith_pool split: if_splits)
qed

lemma playersCheck_pool:
  "pool_reachable (bulletHouse (gameData st)) \<Longrightarrow>
   pool_reachable (bulletHouse (gameData (ServerGameData_playersCheck hits ch keys st)))"
proof (induction keys arbitrary: st)
  case Nil
  then show ?case by simp
next
  case (Cons key keys)
  then show ?case
    by (auto simp: ServerPlayer_checkCollidedWith_def checkCollidedWith_pool split: option.splits)
qed

lemma update_pool:
  assumes "ServerGameData_update hits ch st = Some st'" and "pool_reachable (bulletHouse (gameData st))"
  shows "pool_reachable (bulletHouse (gameData st'))"
proof -
  from assms(1) obtain st2 where
    st2: "ServerGameData_asteroidsCheck hits ch (length (asteroids (gameData (tick_moved ch st))))
            (tick_moved ch st) = Some st2"
    by (auto simp: update_stages split: option.splits)
  define st3 where "st3 = ServerGameData_playersCheck hits ch (map fst (players (gameData st2))) st2"
  from assms(1) st2 have st': "st' = st3\<lparr>gameData := fst (ServerGameData_topUp ch (gameData st3, slot st3)),
                       slot := snd (ServerGameData_topUp ch (gameData st3, slot st3))\<rparr>"
    by (simp add: update_stages st3_def Let_def)
  from assms(2) have "pool_reachable (bulletHouse (gameData (tick_moved ch st)))" by (rule tick_moved_pool)
  with st2 have "pool_reachable (bulletHouse (gameData st2))" by (rule asteroidsCheck_pool)
  then have "pool_reachable (bulletHouse (gameData st3))" unfolding st3_def by (rule playersCheck_pool)
  then show ?thesis by (simp add: st' topUp_props)
qed

lemma reachable_pool: "reachable hits ch st \<Longrightarrow> pool_reachable (bulletHouse (gameData st))"
proof (induction rule: reachable.induct)
  case start
  show ?case by (simp add: new_Server_fields pool_new)
next
  case (tick st st')
  then obtain st1 where "ServerGameData_update hits ch st = Some st1"
    and "st' = st1\<lparr>outbox := outbox st1 @ map (\<lambda>socket. GameDataEvent (s_id socket)) (connectedSockets st1)\<rparr>"
    by (auto simp: Server_gameUpdateLoop_def split: option.splits)
  with tick.IH show ?case by (simp add: update_pool)
next
  case (connected st sid)
  then show ?case by (simp add: Server_onConnectedEvent_def)
next
  case (disconnected st sid)
  then show ?case
    by (simp add: Server_onDisconnectedEvent_def Let_def ServerGameData_recycleBulletsByFirerId_def
        ServerGameData_removePlayerById_def pool_recycleByFirer split: option.splits)
next
  case (loggingIn st sid name color)
  then show ?case
    by (simp add: Server_onTryLoggingInEvent_def Let_def ServerGameData_addPlayer_def
        split: option.splits)
next
  case (playerInput st sid playerInput)
  then show ?case by (simp add: Server_onPlayerInputEvent_def split: option.splits)
qed

lemma pool_active_unflagged:
  "pool_reachable bh \<Longrightarrow> \<forall>b\<in>set (bullets bh). \<not> b_needsToBeRecycled b"
proof (induction rule: pool_reachable.induct)
  case pool_new
  show ?case by (simp add: new_BulletHouse_def)
next
  case (pool_fire bh uid firerId x y heading color)
  from pool_fire.hyps have inv: "pool_inv bh" by (rule pool_reachable_inv)
  have "\<not> b_needsToBeRecycled (fst (BulletHouse_createOrGetBullet uid bh))"
  proof (cases "recycledBullets bh = []")
    case True
    then show ?thesis by (simp add: BulletHouse_createOrGetBullet_def new_ServerBullet_def)
  next
    case False
    then have "last (recycledBullets bh) \<in> set (recycledBullets bh)" by simp
    with inv have "ServerBullet_isReset (last (recycledBullets bh))" by (simp add: pool_inv_def)
    with False show ?thesis
      by (simp add: BulletHouse_createOrGetBullet_def ServerBullet_isReset_def)
  qed
  with pool_fire.IH show ?case
    by (auto simp: BulletHouse_fireBullet_def case_prod_beta Let_def ServerBullet_setInitValues_def
        BulletHouse_createOrGetBullet_def)
next
  case (pool_update bh width height)
  show ?case by (simp add: BulletHouse_update_eq)
next
  case (pool_recycleById bh ident)
  from pool_recycleById.IH show ?case by (rule bullets_recycleById_firer)
next
  case (pool_recycleByFirer bh firerId)
  from pool_recycleByFirer.IH show ?case by (simp add: BulletHouse_recycleBulletsByFirerId_eq)
qed

text \<open>
  In every state the server reaches, the pool of the game data is one its four operations
  produce: the projectiles it has constructed are on its two lists exactly once, the
  recycled ones are reset, and no active projectile carries the recycle flag.
\<close>

theorem server_pool_invariant:
  assumes "reachable hits ch st"
  shows "(let bh = bulletHouse (gameData st)
          in distinct (map b_ref (bullets bh) @ map b_ref (recycledBullets bh))
           \<and> b_ref ` set (bullets bh) \<union> b_ref ` set (recycledBullets bh) = {..<allocated bh}
           \<and> (\<forall>b\<in>set (recycledBullets bh). ServerBullet_isReset b)
           \<and> (\<forall>b\<in>set (bullets bh). \<not> b_needsToBeRecycled b))"
proof -
  from assms have r: "pool_reachable (bulletHouse (gameData st))" by (rule reachable_pool)
  then have inv: "pool_inv (bulletHouse (gameData st))" by (rule pool_reachable_inv)
  from pool_inv_distinct [OF inv] inv pool_active_unflagged [OF r] show ?thesis
    by (simp add: Let_def BulletHouse_refs_def pool_inv_def)
qed

theorem server_pool_invariant_witness:
  "distinct (map b_ref (bullets (bulletHouse (gameData example_logged_in)))
             @ map b_ref (recycledBullets (bulletHouse (gameData example_logged_in))))
   \<and> b_ref ` set (bullets (bulletHouse (gameData example_logged_in)))
       \<union> b_ref ` set (recycledBullets (bulletHouse (gameData example_logged_in)))
     = {..<allocated (bulletHouse (gameData example_logged_in))}"
proof -
  have "reachable example_hits example_chance example_logged_in"
    unfolding example_logged_in_def by (intro reachable.loggingIn reachable.connected reachable.start)
  from server_pool_invariant [OF this] show ?thesis by (simp add: Let_def)
qed

end
